theory Spec2Isabelle
  imports Main
begin

section \<open>The Redis random-command fuzzer (randomRedisWithFuzzer.cpp)\<close>

text \<open>
  The program reads command templates from a line-oriented file, optionally inserts one
  special character into each sampled command, sends batches of commands through a
  pipelined hiredis connection and appends every completed batch to a log file.

  The embedding keeps the structure of the source: one definition per source function,
  the loops of \<open>main\<close> as recursive functions, the effects as an explicit \<open>world\<close>
  record that is passed through, and undefined behaviour and early returns as values.

  Conventions. C++ \<open>int\<close> variables (\<open>lineNum\<close>, \<open>fileLength\<close>, \<open>batchNum\<close>,
  \<open>port\<close>, ...) are \<open>int\<close>; the model does not bound them, so it describes runs in which
  no counter passes \<open>INT_MAX\<close>. \<open>size_t\<close> values and string lengths are \<open>nat\<close>.
  A \<open>std::string\<close> is a \<open>string\<close> (a list of bytes).
\<close>

subsection \<open>Undefined behaviour and exceptions\<close>

datatype fault =
    DivisionByZero   \<comment> \<open>operator \<open>%\<close> with a zero right operand: undefined behaviour\<close>
  | OutOfRange       \<comment> \<open>\<open>std::out_of_range\<close> thrown by \<open>std::string::insert\<close>\<close>

text \<open>
  C++ \<open>a % b\<close>: undefined for \<open>b = 0\<close>, otherwise the remainder of the division that
  truncates towards zero (the sign follows the dividend).
\<close>

definition cpp_rem :: "int \<Rightarrow> int \<Rightarrow> fault + int" where
  "cpp_rem a b = (if b = 0 then Inl DivisionByZero else Inr (sgn a * (\<bar>a\<bar> mod \<bar>b\<bar>)))"

subsection \<open>Input file streams and \<open>std::getline\<close>\<close>

definition newline :: char where
  "newline = CHR 0x0A"

text \<open>
  An \<open>std::ifstream\<close>: the bytes not yet read, and whether the stream is still
  \<open>good()\<close>. A stream whose file could not be opened is not good from the start.
\<close>

record ifstream =
  buf :: string
  ok :: bool

definition open_in :: "(string \<rightharpoonup> string) \<Rightarrow> string \<Rightarrow> ifstream" where
  "open_in fs path =
     (case fs path of
        None \<Rightarrow> \<lparr>buf = [], ok = False\<rparr>
      | Some c \<Rightarrow> \<lparr>buf = c, ok = True\<rparr>)"

text \<open>
  \<open>std::getline(file, line)\<close>, returning the stream's truth value, the new \<open>line\<close>
  and the new stream. On a stream that is not good nothing is extracted and \<open>line\<close> is
  left as it was. On a good stream \<open>line\<close> is erased first; the bytes up to the next
  newline are stored and the newline is dropped. Reaching the end of the file after at
  least one byte sets \<open>eofbit\<close> only (the call succeeds, the stream is no longer good);
  reaching it with nothing extracted sets \<open>failbit\<close> as well.
\<close>

definition getline :: "ifstream \<Rightarrow> string \<Rightarrow> bool \<times> string \<times> ifstream" where
  "getline s line =
     (if \<not> ok s then (False, line, s)
      else if buf s = [] then (False, [], s\<lparr>ok := False\<rparr>)
      else
        let l = takeWhile (\<lambda>c. c \<noteq> newline) (buf s);
            r = dropWhile (\<lambda>c. c \<noteq> newline) (buf s)
        in if r = [] then (True, l, \<lparr>buf = [], ok = False\<rparr>)
           else (True, l, \<lparr>buf = tl r, ok = True\<rparr>))"

lemma getline_shrinks:
  "getline s line = (True, l, s') \<Longrightarrow> length (buf s') < length (buf s)"
proof -
  assume g: "getline s line = (True, l, s')"
  let ?r = "dropWhile (\<lambda>c. c \<noteq> newline) (buf s)"
  have len: "length ?r \<le> length (buf s)"
    by (rule length_dropWhile_le)
  from g have ne: "buf s \<noteq> []" and good: "ok s"
    by (auto simp: getline_def split: if_splits)
  show ?thesis
  proof (cases "?r = []")
    case True
    with ne good have "getline s line = (True, takeWhile (\<lambda>c. c \<noteq> newline) (buf s), \<lparr>buf = [], ok = False\<rparr>)"
      unfolding getline_def Let_def by (simp del: dropWhile_eq_Nil_conv)
    with g have "buf s' = []" by auto
    with ne show ?thesis by simp
  next
    case False
    then have shorter: "length (tl ?r) < length ?r"
      by (cases ?r) auto
    from ne good False
    have "getline s line = (True, takeWhile (\<lambda>c. c \<noteq> newline) (buf s), \<lparr>buf = tl ?r, ok = True\<rparr>)"
      unfolding getline_def Let_def by (simp del: dropWhile_eq_Nil_conv)
    with g have "buf s' = tl ?r" by auto
    with shorter len show ?thesis by simp
  qed
qed

subsection \<open>\<open>readLineFromFile\<close> and \<open>countFileLines\<close>\<close>

text \<open>
  The loop of \<open>readLineFromFile\<close>:
  \<^verbatim>\<open>while (std::getline(file, line) && currentLine < lineNum) { currentLine++; }  return line;\<close>
  \<open>getline\<close> is called before the counter is compared.
\<close>

function readLoop :: "ifstream \<Rightarrow> string \<Rightarrow> int \<Rightarrow> int \<Rightarrow> string" where
  "readLoop file line currentLine lineNum =
     (case getline file line of
        (good, line', file') \<Rightarrow>
          if good \<and> currentLine < lineNum
          then readLoop file' line' (currentLine + 1) lineNum
          else line')"
  by pat_completeness auto
termination
  by (relation "measure (\<lambda>(file, line, currentLine, lineNum). length (buf file))")
     (auto dest: getline_shrinks [OF sym])

declare readLoop.simps [simp del]

definition readLineFromFile :: "(string \<rightharpoonup> string) \<Rightarrow> string \<Rightarrow> int \<Rightarrow> string" where
  "readLineFromFile fs filePath lineNum = readLoop (open_in fs filePath) [] 0 lineNum"

text \<open>
  The loop of \<open>countFileLines\<close>:
  \<^verbatim>\<open>while (std::getline(file, line)) { lineCount++; }  return lineCount;\<close>
\<close>

function countLoop :: "ifstream \<Rightarrow> string \<Rightarrow> int \<Rightarrow> int" where
  "countLoop file line lineCount =
     (case getline file line of
        (good, line', file') \<Rightarrow>
          if good then countLoop file' line' (lineCount + 1) else lineCount)"
  by pat_completeness auto
termination
  by (relation "measure (\<lambda>(file, line, lineCount). length (buf file))")
     (auto dest: getline_shrinks [OF sym])

declare countLoop.simps [simp del]

definition countFileLines :: "(string \<rightharpoonup> string) \<Rightarrow> string \<Rightarrow> int" where
  "countFileLines fs filePath = countLoop (open_in fs filePath) [] 0"

subsection \<open>The world the program runs in\<close>

text \<open>
  Everything outside the program, and the effects the program has on it:
  the file system (path to contents), the values that successive calls of \<open>rand()\<close>
  return (\<open>rand()\<close> never returns a negative number, hence \<open>nat\<close>), the hiredis
  connection, and the standard error stream (the one line the program prints on standard
  output, the name of the output file, is left out).

  hiredis is an external library. The model records each call: \<open>appended\<close> holds the
  strings that were handed to \<open>redisAppendCommand\<close>, in call order. The program hands
  over \<open>cmd.c_str()\<close>, a C string, which ends at the first NUL byte of \<open>cmd\<close>
  (\<open>c_str\<close> below); what hiredis makes of such a string, which it reads as a C format
  string, is outside the repository. \<open>get_reply_calls\<close> counts the calls of \<open>redisGetReply\<close> and
  \<open>replies_read\<close> those that returned \<open>REDIS_OK\<close>; \<open>context_live\<close> says that a
  context was obtained and not yet freed. What the outside decides is given by oracles:
  \<open>reply_ok b i\<close> says whether the read of reply \<open>i\<close> (from 0) of batch \<open>b\<close>
  succeeds, \<open>temp_open_ok b\<close> and \<open>log_open_ok b\<close> whether the temporary file and the
  output file can be opened for writing in batch \<open>b\<close>, \<open>mkstemp_name\<close> is the name
  \<open>mkstemp\<close> picks (\<open>None\<close> when it fails), \<open>timestamp\<close> the formatted local time
  and \<open>connect_ok\<close> whether \<open>redisConnectWithTimeout\<close> yields a usable context.
  The file system is private to the run: a file holds what was last written to it, and
  a write to an open stream does not fail.
\<close>

record world =
  files :: "string \<rightharpoonup> string"
  rand_seq :: "nat \<Rightarrow> nat"
  rand_pos :: nat
  context_live :: bool
  appended :: "string list"
  get_reply_calls :: nat
  replies_read :: nat
  stderr :: "string list"
  reply_ok :: "int \<Rightarrow> nat \<Rightarrow> bool"
  temp_open_ok :: "int \<Rightarrow> bool"
  log_open_ok :: "int \<Rightarrow> bool"
  mkstemp_name :: "string option"
  timestamp :: string
  connect_ok :: bool

definition rand :: "world \<Rightarrow> int \<times> world" where
  "rand w = (int (rand_seq w (rand_pos w)), w\<lparr>rand_pos := Suc (rand_pos w)\<rparr>)"

text \<open>\<open>stream << text\<close> on an output stream of the file at \<open>path\<close>.\<close>

definition write_file :: "string \<Rightarrow> string \<Rightarrow> world \<Rightarrow> world" where
  "write_file path text w =
     w\<lparr>files := (files w)(path \<mapsto> (case files w path of None \<Rightarrow> [] | Some c \<Rightarrow> c) @ text)\<rparr>"

text \<open>\<open>stream << line << std::endl\<close>.\<close>

definition write_line :: "string \<Rightarrow> string \<Rightarrow> world \<Rightarrow> world" where
  "write_line path line w = write_file path (line @ [newline]) w"

definition redisFree :: "world \<Rightarrow> world" where
  "redisFree w = w\<lparr>context_live := False\<rparr>"

text \<open>
  \<open>cmd.c_str()\<close> points to the characters of \<open>cmd\<close> followed by a NUL byte; read as a
  C string, as \<open>redisAppendCommand(context, format, ...)\<close> reads its second argument, it
  is the characters of \<open>cmd\<close> before its first NUL byte.
\<close>

definition nul :: char where
  "nul = CHR 0x00"

definition c_str :: "string \<Rightarrow> string" where
  "c_str s = takeWhile (\<lambda>c. c \<noteq> nul) s"

text \<open>Line 187: \<^verbatim>\<open>redisAppendCommand(context, cmd.c_str());\<close>\<close>

definition redisAppendCommand :: "string \<Rightarrow> world \<Rightarrow> world" where
  "redisAppendCommand cmd w = w\<lparr>appended := appended w @ [c_str cmd]\<rparr>"

definition cerr :: "string \<Rightarrow> world \<Rightarrow> world" where
  "cerr msg w = w\<lparr>stderr := stderr w @ [msg]\<rparr>"

subsection \<open>\<open>randomCommand\<close> and \<open>fuzzCommand\<close>\<close>

text \<open>
  \<^verbatim>\<open>int lineNum = rand() % fileLength;  return readLineFromFile(commandsFile, lineNum);\<close>
\<close>

definition randomCommand :: "string \<Rightarrow> int \<Rightarrow> world \<Rightarrow> fault + (string \<times> world)" where
  "randomCommand commandsFile fileLength w =
     (case rand w of
        (r, w1) \<Rightarrow>
          (case cpp_rem r fileLength of
             Inl e \<Rightarrow> Inl e
           | Inr lineNum \<Rightarrow> Inr (readLineFromFile (files w1) commandsFile lineNum, w1)))"

definition specialChars :: string where
  "specialChars = ''!@#$%^&*()_-+=<>?/''"

text \<open>\<open>s.insert(pos, 1, ch)\<close>: throws \<open>std::out_of_range\<close> when \<open>pos > s.size()\<close>.\<close>

definition string_insert :: "nat \<Rightarrow> char \<Rightarrow> string \<Rightarrow> fault + string" where
  "string_insert pos ch s =
     (if pos > length s then Inl OutOfRange else Inr (take pos s @ ch # drop pos s))"

text \<open>
  \<open>fuzzCommand\<close>. Both operands of \<open>rand() % command.length()\<close> are converted to
  \<open>size_t\<close>; \<open>rand()\<close> is not negative, so its value is kept. The first \<open>rand()\<close> is
  called before the remainder is taken, the second only after the first remainder.
\<close>

definition fuzzCommand :: "string \<Rightarrow> bool \<Rightarrow> world \<Rightarrow> fault + (string \<times> world)" where
  "fuzzCommand command fuzzEnabled w =
     (if \<not> fuzzEnabled then Inr (command, w)
      else
        case rand w of
          (r1, w1) \<Rightarrow>
            (case cpp_rem r1 (int (length command)) of
               Inl e \<Rightarrow> Inl e
             | Inr randIndex \<Rightarrow>
                 (case rand w1 of
                    (r2, w2) \<Rightarrow>
                      (case cpp_rem r2 (int (length specialChars)) of
                         Inl e \<Rightarrow> Inl e
                       | Inr randSpecialIndex \<Rightarrow>
                           (case string_insert (nat randIndex)
                                   (specialChars ! nat randSpecialIndex) command of
                              Inl e \<Rightarrow> Inl e
                            | Inr fuzzedCommand \<Rightarrow> Inr (fuzzedCommand, w2))))))"

subsection \<open>Decimal output of integers\<close>

text \<open>\<open>std::to_string(int)\<close>, which is also what \<open>stream << int\<close> prints.\<close>

fun digits :: "nat \<Rightarrow> string" where
  "digits n =
     (if n < 10 then [''0123456789'' ! n]
      else digits (n div 10) @ [''0123456789'' ! (n mod 10)])"

declare digits.simps [simp del]

definition to_string :: "int \<Rightarrow> string" where
  "to_string i = (if i < 0 then CHR ''-'' # digits (nat (- i)) else digits (nat i))"

subsection \<open>The parsed arguments, and the local variables the batch loop reads\<close>

record args =
  port :: int
  numBatches :: int
  commandsFile :: string
  fuzzEnabled :: bool

record run = args +
  tempFileName :: string
  outputFileName :: string
  fileLength :: int

text \<open>What stops the run: \<open>return\<close> from \<open>main\<close> or \<open>exit\<close>, with the exit status and
  the world left behind, or undefined behaviour, after which nothing is known.\<close>

datatype outcome =
    Exited int world
  | Crashed fault

subsection \<open>The loops inside one batch\<close>

text \<open>
  Lines 171 to 176:
  \<^verbatim>\<open>for (int i = 0; i < pipelineSize; i++) {
    std::string cmd = randomCommand(commandsFile, fileLength);
    std::string fuzzedCmd = fuzzCommand(cmd, fuzzEnabled);
    tempFile << fuzzedCmd << std::endl;
    commands.push_back(fuzzedCmd); }\<close>
\<close>

function generateCommands ::
  "run \<Rightarrow> int \<Rightarrow> int \<Rightarrow> string list \<Rightarrow> world \<Rightarrow> fault + (string list \<times> world)" where
  "generateCommands r pipelineSize i commands w =
     (if i < pipelineSize then
        (case randomCommand (commandsFile r) (fileLength r) w of
           Inl e \<Rightarrow> Inl e
         | Inr (cmd, w1) \<Rightarrow>
             (case fuzzCommand cmd (fuzzEnabled r) w1 of
                Inl e \<Rightarrow> Inl e
              | Inr (fuzzedCmd, w2) \<Rightarrow>
                  generateCommands r pipelineSize (i + 1) (commands @ [fuzzedCmd])
                    (write_line (tempFileName r) fuzzedCmd w2)))
      else Inr (commands, w))"
  by pat_completeness auto
termination
  by (relation "measure (\<lambda>(r, pipelineSize, i, commands, w). nat (pipelineSize - i))") auto

declare generateCommands.simps [simp del]

text \<open>Lines 186 to 188: \<^verbatim>\<open>for (const auto& cmd : commands) redisAppendCommand(context, cmd.c_str());\<close>\<close>

fun appendCommands :: "string list \<Rightarrow> world \<Rightarrow> world" where
  "appendCommands [] w = w"
| "appendCommands (cmd # cmds) w = appendCommands cmds (redisAppendCommand cmd w)"

text \<open>
  Lines 194 to 205, returning \<open>success\<close>:
  \<^verbatim>\<open>for (size_t i = 0; i < commands.size(); i++) {
    if (redisGetReply(context, (void**)&reply) != REDIS_OK) {
      std::cerr << "Error: Failed to execute commands on Redis server" << std::endl;
      success = false; break; }
    if (reply != nullptr) freeReplyObject(reply); }\<close>
\<close>

function getReplies :: "int \<Rightarrow> nat \<Rightarrow> nat \<Rightarrow> world \<Rightarrow> bool \<times> world" where
  "getReplies batchNum count i w =
     (if i < count then
        (let w1 = w\<lparr>get_reply_calls := Suc (get_reply_calls w)\<rparr>
         in if \<not> reply_ok w batchNum i
            then (False, cerr ''Error: Failed to execute commands on Redis server'' w1)
            else getReplies batchNum count (Suc i) (w1\<lparr>replies_read := Suc (replies_read w1)\<rparr>))
      else (True, w))"
  by pat_completeness auto
termination
  by (relation "measure (\<lambda>(batchNum, count, i, w). count - i)") auto

declare getReplies.simps [simp del]

text \<open>
  Lines 225 to 227:
  \<^verbatim>\<open>while (std::getline(readTempFile, line)) { outputFile << line << std::endl; }\<close>
\<close>

function copyLoop :: "string \<Rightarrow> ifstream \<Rightarrow> string \<Rightarrow> world \<Rightarrow> world" where
  "copyLoop out readTempFile line w =
     (case getline readTempFile line of
        (good, line', file') \<Rightarrow>
          if good then copyLoop out file' line' (write_line out line' w) else w)"
  by pat_completeness auto
termination
  by (relation "measure (\<lambda>(out, readTempFile, line, w). length (buf readTempFile))")
     (auto dest: getline_shrinks [OF sym])

declare copyLoop.simps [simp del]

subsection \<open>One iteration of the main loop (lines 158 to 229)\<close>

text \<open>
  Lines 166 to 183: the pipeline size, the generated commands and the \<open>PING\<close> command,
  written to the temporary file (already opened and truncated) and collected in
  \<open>commands\<close>.
\<close>

definition buildBatch :: "run \<Rightarrow> world \<Rightarrow> fault + (string list \<times> world)" where
  "buildBatch r w =
     (case rand w of
        (rnd, w1) \<Rightarrow>
          (case cpp_rem rnd 10 of
             Inl e \<Rightarrow> Inl e
           | Inr m \<Rightarrow>
               (let pipelineSize = m + 1 in
                case generateCommands r pipelineSize 0 [] w1 of
                  Inl e \<Rightarrow> Inl e
                | Inr (commands, w2) \<Rightarrow>
                    (let pingCmd = ''PING '' @ to_string (port r)
                     in Inr (commands @ [pingCmd], write_line (tempFileName r) pingCmd w2)))))"

text \<open>
  The body of the loop. \<open>Inl\<close> is a run that stops in this iteration, \<open>Inr\<close> the world
  the next iteration starts from.
\<close>

definition batchBody :: "run \<Rightarrow> int \<Rightarrow> world \<Rightarrow> outcome + world" where
  "batchBody r batchNum w =
     (if \<not> temp_open_ok w batchNum
      then Inl (Exited 1 (redisFree (cerr ''Error opening temporary file for writing'' w)))
      else
        case buildBatch r (w\<lparr>files := (files w)(tempFileName r \<mapsto> [])\<rparr>) of
          Inl e \<Rightarrow> Inl (Crashed e)
        | Inr (commands, w1) \<Rightarrow>
            (case getReplies batchNum (length commands) 0 (appendCommands commands w1) of
               (success, w2) \<Rightarrow>
                 if \<not> success then Inl (Exited 1 (redisFree w2))
                 else if \<not> log_open_ok w2 batchNum
                 then Inl (Exited 1 (redisFree (cerr ''Error opening output file for writing'' w2)))
                 else
                   (let w3 = write_line (outputFileName r)
                               ([newline] @ ''BATCH NUMBER - '' @ to_string batchNum) w2
                    in Inr (copyLoop (outputFileName r)
                              (open_in (files w3) (tempFileName r)) [] w3))))"

subsection \<open>The main loop and the run\<close>

text \<open>
  \<^verbatim>\<open>for (int batchNum = 1; batchNum <= numBatches; batchNum++) { ... }\<close>
\<close>

function mainLoop :: "run \<Rightarrow> int \<Rightarrow> world \<Rightarrow> outcome + world" where
  "mainLoop r batchNum w =
     (if batchNum \<le> numBatches r then
        (case batchBody r batchNum w of
           Inl stop \<Rightarrow> Inl stop
         | Inr w' \<Rightarrow> mainLoop r (batchNum + 1) w')
      else Inr w)"
  by pat_completeness auto
termination
  by (relation "measure (\<lambda>(r, batchNum, w). nat (numBatches r + 1 - batchNum))") auto

declare mainLoop.simps [simp del]

text \<open>
  \<open>createTempFile\<close>: \<open>mkstemp\<close> creates an empty file and returns its name, or fails and
  the program calls \<open>exit(1)\<close>. \<open>createOutputFile\<close> only builds a name.
\<close>

definition createTempFile :: "world \<Rightarrow> outcome + (string \<times> world)" where
  "createTempFile w =
     (case mkstemp_name w of
        None \<Rightarrow> Inl (Exited 1 (cerr ''Error creating temporary file'' w))
      | Some name \<Rightarrow> Inr (name, w\<lparr>files := (files w)(name \<mapsto> [])\<rparr>))"

definition createOutputFile :: "world \<Rightarrow> string" where
  "createOutputFile w = ''/tmp/redis-commands-'' @ timestamp w @ ''.log''"

text \<open>
  \<open>main\<close> from line 132 on, for the parsed arguments \<open>a\<close>. The message of a failed
  connection is abridged.
\<close>

definition main_run :: "args \<Rightarrow> world \<Rightarrow> outcome" where
  "main_run a w =
     (case createTempFile w of
        Inl stop \<Rightarrow> stop
      | Inr (temp, w1) \<Rightarrow>
          (let out = createOutputFile w1;
               len = countFileLines (files w1) (commandsFile a)
           in if len = 0
              then Exited 1 (cerr ''Error: Commands file is empty or cannot be read'' w1)
              else if \<not> connect_ok w1
              then Exited 1 (cerr ''Connection error'' w1)
              else
                (case mainLoop
                        \<lparr>port = port a, numBatches = numBatches a,
                         commandsFile = commandsFile a, fuzzEnabled = fuzzEnabled a,
                         tempFileName = temp, outputFileName = out, fileLength = len\<rparr>
                        1 (w1\<lparr>context_live := True\<rparr>) of
                   Inl stop \<Rightarrow> stop
                 | Inr w2 \<Rightarrow>
                     Exited 0 ((redisFree w2)\<lparr>files := (files w2)(temp := None)\<rparr>))))"

section \<open>Notions used in the statements\<close>

subsection \<open>The lines of a text\<close>

text \<open>
  The corpus as the specification sees it: the sequence of lines of a text. A newline
  ends a line; bytes after the last newline form a last line; a text that ends with a
  newline has no empty line after it. \<open>unlines\<close> writes each line followed by a newline,
  and \<open>file_text\<close> is the text of a file, empty when the file does not exist.
\<close>

fun file_lines :: "string \<Rightarrow> string list" where
  "file_lines [] = []"
| "file_lines (c # cs) =
     (if c = newline then [] # file_lines cs
      else (case file_lines cs of [] \<Rightarrow> [[c]] | l # ls \<Rightarrow> (c # l) # ls))"

definition unlines :: "string list \<Rightarrow> string" where
  "unlines ls = concat (map (\<lambda>l. l @ [newline]) ls)"

definition file_text :: "(string \<rightharpoonup> string) \<Rightarrow> string \<Rightarrow> string" where
  "file_text fs path = (case fs path of None \<Rightarrow> [] | Some c \<Rightarrow> c)"

subsection \<open>The entries of the output file\<close>

text \<open>
  \<open>log_entry n cs\<close> is the text the output file receives for batch \<open>n\<close> with commands
  \<open>cs\<close>, in the words of the specification: an empty line, the line
  \<open>BATCH NUMBER - n\<close>, then each command on a line of its own. \<open>log_entries n css\<close> are
  the entries of consecutive batches, numbered from \<open>n\<close>.
\<close>

definition log_entry :: "int \<Rightarrow> string list \<Rightarrow> string" where
  "log_entry n cs = [newline] @ ''BATCH NUMBER - '' @ to_string n @ [newline] @ unlines cs"

fun log_entries :: "int \<Rightarrow> string list list \<Rightarrow> string" where
  "log_entries n [] = []"
| "log_entries n (cs # css) = log_entry n cs @ log_entries (n + 1) css"

subsection \<open>Abbreviations for the worlds a batch goes through\<close>

text \<open>
  \<open>pingCmd\<close> and \<open>reply_error\<close> name two strings of the source. \<open>rand_calls r w\<close> is
  the number of calls of \<open>rand()\<close> that building one batch makes from world \<open>w\<close>: one
  for the pipeline size, and per generated command one for the line and, with fuzzing
  enabled, two in \<open>fuzzCommand\<close>. \<open>sent r commands w\<close> is the world after the batch
  \<open>commands\<close> was written to the temporary file and handed to the connection.
  \<open>run_of\<close> collects the local variables of \<open>main\<close> when the loop starts.
\<close>

definition pingCmd :: "run \<Rightarrow> string" where
  "pingCmd r = ''PING '' @ to_string (port r)"

definition reply_error :: string where
  "reply_error = ''Error: Failed to execute commands on Redis server''"

definition rand_calls :: "run \<Rightarrow> world \<Rightarrow> nat" where
  "rand_calls r w =
     1 + (rand_seq w (rand_pos w) mod 10 + 1) * (if fuzzEnabled r then 3 else 1)"

definition sent :: "run \<Rightarrow> string list \<Rightarrow> world \<Rightarrow> world" where
  "sent r commands w =
     w\<lparr>files := (files w)(tempFileName r \<mapsto> unlines commands),
       rand_pos := rand_pos w + rand_calls r w,
       appended := appended w @ map c_str commands\<rparr>"

definition run_of :: "args \<Rightarrow> string \<Rightarrow> world \<Rightarrow> run" where
  "run_of a temp w1 =
     \<lparr>port = port a, numBatches = numBatches a,
      commandsFile = commandsFile a, fuzzEnabled = fuzzEnabled a,
      tempFileName = temp, outputFileName = createOutputFile w1,
      fileLength = countFileLines (files w1) (commandsFile a)\<rparr>"

subsection \<open>A sample run\<close>

text \<open>
  A world for concrete runs: a commands file with the two lines \<open>GET k\<close> and
  \<open>SET k v\<close>, \<open>rand()\<close> returning 0, 1, 2, ... and an outside in which every
  operation succeeds; the arguments of a run on it, and the local variables of the loop.
  In the first batch \<open>rand()\<close> returns 0, so the pipeline size is 1, then 1, so line 1
  is sampled.
\<close>

definition example_world :: world where
  "example_world =
     \<lparr>files = [''commands.txt'' \<mapsto> ''GET k'' @ [newline] @ ''SET k v'' @ [newline]],
      rand_seq = (\<lambda>n. n), rand_pos = 0, context_live = True, appended = [],
      get_reply_calls = 0, replies_read = 0, stderr = [],
      reply_ok = (\<lambda>b i. True), temp_open_ok = (\<lambda>b. True), log_open_ok = (\<lambda>b. True),
      mkstemp_name = Some ''/tmp/redis-commands-a1B2c3'', timestamp = ''20240101120000'',
      connect_ok = True\<rparr>"

definition example_args :: args where
  "example_args =
     \<lparr>port = 6379, numBatches = 1, commandsFile = ''commands.txt'', fuzzEnabled = False\<rparr>"

definition example_run :: run where
  "example_run =
     \<lparr>port = 6379, numBatches = 2, commandsFile = ''commands.txt'', fuzzEnabled = False,
      tempFileName = ''/tmp/redis-commands-a1B2c3'',
      outputFileName = ''/tmp/redis-commands-20240101120000.log'', fileLength = 2\<rparr>"

text \<open>
  The same world and loop variables with another commands file: its one line \<open>GET\<close>,
  a NUL byte, \<open>k\<close>.
\<close>

definition nul_world :: world where
  "nul_world =
     example_world\<lparr>files := [''commands.txt'' \<mapsto> ''GET'' @ [nul] @ ''k'' @ [newline]]\<rparr>"

definition nul_run :: run where
  "nul_run = example_run\<lparr>fileLength := 1\<rparr>"

text \<open>The equations that evaluate a run on concrete data.\<close>

lemmas run_defs =
  main_run_def createTempFile_def createOutputFile_def countFileLines_def countLoop.simps
  mainLoop.simps batchBody_def buildBatch_def rand_def cpp_rem_def
  generateCommands.simps randomCommand_def readLineFromFile_def readLoop.simps getline_def
  open_in_def fuzzCommand_def string_insert_def specialChars_def
  write_line_def write_file_def to_string_def digits.simps
  redisAppendCommand_def c_str_def nul_def redisFree_def cerr_def getReplies.simps copyLoop.simps
  newline_def Let_def

section \<open>Reading lines\<close>

text \<open>\<open>std::getline\<close> walks through exactly the lines of the text.\<close>

lemma file_lines_Nil_iff [simp]: "file_lines b = [] \<longleftrightarrow> b = []"
  by (cases b) (auto split: list.splits)

lemma file_lines_first:
  "b \<noteq> [] \<Longrightarrow>
   file_lines b = takeWhile (\<lambda>c. c \<noteq> newline) b # file_lines (tl (dropWhile (\<lambda>c. c \<noteq> newline) b))"
proof (induction b)
  case Nil
  then show ?case by simp
next
  case (Cons c cs)
  show ?case
  proof (cases "c = newline")
    case True
    then show ?thesis by simp
  next
    case False
    show ?thesis
    proof (cases "cs = []")
      case True
      with False show ?thesis by simp
    next
      case ne: False
      with Cons.IH False show ?thesis by simp
    qed
  qed
qed

lemma file_lines_line:
  "newline \<notin> set l \<Longrightarrow> file_lines (l @ newline # rest) = l # file_lines rest"
  by (induction l) auto

lemma file_lines_unlines:
  "list_all (\<lambda>l. newline \<notin> set l) ls \<Longrightarrow> file_lines (unlines ls) = ls"
  by (induction ls) (auto simp: unlines_def file_lines_line)

lemma getline_at_end:
  "buf s = [] \<Longrightarrow> fst (getline s line) = False"
  by (simp add: getline_def)

lemma getline_line:
  assumes "ok s" and "buf s \<noteq> []"
  shows "\<exists>s'. getline s line = (True, hd (file_lines (buf s)), s')
           \<and> file_lines (buf s') = tl (file_lines (buf s)) \<and> (ok s' \<or> buf s' = [])"
proof -
  let ?l = "takeWhile (\<lambda>c. c \<noteq> newline) (buf s)"
  let ?r = "dropWhile (\<lambda>c. c \<noteq> newline) (buf s)"
  have fl: "file_lines (buf s) = ?l # file_lines (tl ?r)"
    using assms(2) by (rule file_lines_first)
  show ?thesis
  proof (cases "?r = []")
    case True
    with assms have "getline s line = (True, ?l, \<lparr>buf = [], ok = False\<rparr>)"
      unfolding getline_def Let_def by (simp del: dropWhile_eq_Nil_conv)
    with fl True show ?thesis by simp
  next
    case False
    with assms have "getline s line = (True, ?l, \<lparr>buf = tl ?r, ok = True\<rparr>)"
      unfolding getline_def Let_def by (simp del: dropWhile_eq_Nil_conv)
    with fl show ?thesis by simp
  qed
qed

lemma countLoop_lines:
  "ok s \<or> buf s = [] \<Longrightarrow> countLoop s line n = n + int (length (file_lines (buf s)))"
proof (induction "file_lines (buf s)" arbitrary: s line n)
  case Nil
  from Nil.hyps [symmetric] have "buf s = []" by simp
  then have "fst (getline s line) = False" by (rule getline_at_end)
  with Nil show ?case
    by (subst countLoop.simps) (auto split: prod.splits)
next
  case (Cons l ls)
  from Cons.hyps(2) have ne: "buf s \<noteq> []" by auto
  with Cons.prems have good: "ok s" by simp
  from getline_line [OF good ne, of line] obtain s' where
    g: "getline s line = (True, hd (file_lines (buf s)), s')" and
    rest: "file_lines (buf s') = tl (file_lines (buf s))" and wf: "ok s' \<or> buf s' = []"
    by blast
  from rest Cons.hyps(2) have "ls = file_lines (buf s')" by (metis list.sel(3))
  from Cons.hyps(1) [OF this wf]
  have "countLoop s' (hd (file_lines (buf s))) (n + 1) = n + 1 + int (length (file_lines (buf s')))" .
  with g rest Cons.hyps(2) [symmetric] show ?case
    by (subst countLoop.simps) simp
qed

lemma readLoop_lines:
  "ok s \<or> buf s = [] \<Longrightarrow> cur \<le> lineNum \<Longrightarrow> nat (lineNum - cur) < length (file_lines (buf s)) \<Longrightarrow>
   readLoop s line cur lineNum = file_lines (buf s) ! nat (lineNum - cur)"
proof (induction "file_lines (buf s)" arbitrary: s line cur)
  case Nil
  then show ?case by simp
next
  case (Cons l ls)
  from Cons.hyps(2) have ne: "buf s \<noteq> []" by auto
  with Cons.prems have good: "ok s" by simp
  from getline_line [OF good ne, of line] obtain s' where
    g: "getline s line = (True, hd (file_lines (buf s)), s')" and
    rest: "file_lines (buf s') = tl (file_lines (buf s))" and wf: "ok s' \<or> buf s' = []"
    by blast
  from rest Cons.hyps(2) have ls: "ls = file_lines (buf s')" by (metis list.sel(3))
  show ?case
  proof (cases "cur < lineNum")
    case True
    then have le: "cur + 1 \<le> lineNum" by simp
    from True Cons.prems(3) Cons.hyps(2) [symmetric] ls
    have lt: "nat (lineNum - (cur + 1)) < length (file_lines (buf s'))" by auto
    from True have idx: "nat (lineNum - cur) = Suc (nat (lineNum - (cur + 1)))" by simp
    from Cons.hyps(1) [OF ls wf le lt]
    have "readLoop s' (hd (file_lines (buf s))) (cur + 1) lineNum = file_lines (buf s') ! nat (lineNum - (cur + 1))" .
    with g True idx ls Cons.hyps(2) [symmetric] show ?thesis
      by (subst readLoop.simps) simp
  next
    case False
    with Cons.prems(2) have "cur = lineNum" by simp
    with g Cons.hyps(2) [symmetric] show ?thesis
      by (subst readLoop.simps) simp
  qed
qed

section \<open>Properties of \<open>fuzzCommand\<close>\<close>

lemma cpp_rem_nat: "b \<noteq> 0 \<Longrightarrow> cpp_rem (int a) (int b) = Inr (int (a mod b))"
  by (cases "a = 0") (simp_all add: cpp_rem_def zmod_int)

lemma length_specialChars: "length specialChars = 18"
  by (simp add: specialChars_def)

lemma fuzzCommand_nonempty:
  assumes "command \<noteq> []"
  shows "fuzzCommand command True w =
           Inr (take (rand_seq w (rand_pos w) mod length command) command
                  @ specialChars ! (rand_seq w (Suc (rand_pos w)) mod 18)
                  # drop (rand_seq w (rand_pos w) mod length command) command,
                w\<lparr>rand_pos := Suc (Suc (rand_pos w))\<rparr>)"
proof -
  have "rand_seq w (rand_pos w) mod length command < length command"
    using assms by simp
  then have pos: "\<not> length command < rand_seq w (rand_pos w) mod length command"
    by linarith
  have eighteen: "cpp_rem (int x) 18 = Inr (int (x mod 18))" for x
    using cpp_rem_nat [of 18 x] by simp
  show ?thesis
    using assms pos
    by (simp add: fuzzCommand_def rand_def cpp_rem_nat length_specialChars eighteen string_insert_def)
qed

text \<open>
  Claim C1 (as amended): for every non-empty command, \<open>fuzzCommand\<close> with fuzzing enabled
  inserts one character of \<open>specialChars\<close> at position \<open>rand() % command.length()\<close>.
  The position lies in \<open>[0, len - 1]\<close>, so the character always goes in front of a
  character of the command; the character is \<open>specialChars[rand() % 18]\<close>; two calls
  of \<open>rand()\<close> are consumed. Every position below \<open>len\<close> and every character of the
  set is produced by the \<open>rand()\<close> values equal to the position and to the index of the
  character. (How \<open>rand()\<close> is distributed is not part of the model.)
\<close>

theorem fuzzCommand_inserts_before_a_character:
  assumes "command \<noteq> []"
    and "i = rand_seq w (rand_pos w) mod length command"
    and "c = specialChars ! (rand_seq w (Suc (rand_pos w)) mod length specialChars)"
  shows "fuzzCommand command True w =
           Inr (take i command @ c # drop i command, w\<lparr>rand_pos := rand_pos w + 2\<rparr>)
         \<and> i < length command \<and> c \<in> set specialChars
         \<and> (\<forall>p k. p < length command \<and> k < length specialChars
                \<and> rand_seq w (rand_pos w) = p \<and> rand_seq w (Suc (rand_pos w)) = k
              \<longrightarrow> fuzzCommand command True w =
                    Inr (take p command @ specialChars ! k # drop p command,
                         w\<lparr>rand_pos := rand_pos w + 2\<rparr>))"
proof -
  have run: "fuzzCommand command True w =
           Inr (take i command @ c # drop i command, w\<lparr>rand_pos := rand_pos w + 2\<rparr>)"
    using fuzzCommand_nonempty [OF assms(1), of w] assms(2,3)
    by (simp add: length_specialChars)
  have i: "i < length command"
    using assms(1,2) by simp
  have "rand_seq w (Suc (rand_pos w)) mod length specialChars < length specialChars"
    by (simp add: length_specialChars)
  then have c: "c \<in> set specialChars"
    unfolding assms(3) by (rule nth_mem)
  have each: "fuzzCommand command True w =
                Inr (take p command @ specialChars ! k # drop p command,
                     w\<lparr>rand_pos := rand_pos w + 2\<rparr>)"
    if "p < length command" "k < length specialChars"
       "rand_seq w (rand_pos w) = p" "rand_seq w (Suc (rand_pos w)) = k" for p k
    using run that assms(2,3) by simp
  from run i c each show ?thesis by blast
qed

theorem fuzzCommand_inserts_before_a_character_witness:
  "''ab'' \<noteq> [] \<and> fuzzCommand ''ab'' True (example_world\<lparr>rand_pos := 1\<rparr>)
      = Inr (''a#b'', example_world\<lparr>rand_pos := 3\<rparr>)
   \<and> (1::nat) < length ''ab'' \<and> CHR ''#'' \<in> set specialChars
   \<and> (2::nat) < length specialChars \<and> specialChars ! 2 = CHR ''#''"
proof -
  let ?w = "example_world\<lparr>rand_pos := 1\<rparr>"
  have ne: "''ab'' \<noteq> []" by simp
  have r1: "rand_seq ?w (rand_pos ?w) = 1" and r2: "rand_seq ?w (Suc (rand_pos ?w)) = 2"
    by (simp_all add: example_world_def)
  have i: "(1::nat) = rand_seq ?w (rand_pos ?w) mod length ''ab''"
    unfolding r1 by (simp add: numeral_2_eq_2 [symmetric])
  have k: "(2::nat) < length specialChars" by (simp add: specialChars_def)
  have c2: "specialChars ! 2 = CHR ''#''" by (simp add: specialChars_def)
  have c: "CHR ''#'' = specialChars ! (rand_seq ?w (Suc (rand_pos ?w)) mod length specialChars)"
    unfolding r2 by (simp add: specialChars_def)
  note t = fuzzCommand_inserts_before_a_character [OF ne i c]
  from t have run: "fuzzCommand ''ab'' True ?w = Inr (''a#b'', example_world\<lparr>rand_pos := 3\<rparr>)"
    by simp
  from t have "(1::nat) < length ''ab'' \<and> CHR ''#'' \<in> set specialChars" by simp
  moreover from t [THEN conjunct2, THEN conjunct2, THEN conjunct2] k r1 r2
  have "fuzzCommand ''ab'' True ?w
          = Inr (take 1 ''ab'' @ specialChars ! 2 # drop 1 ''ab'', ?w\<lparr>rand_pos := rand_pos ?w + 2\<rparr>)"
    by simp
  ultimately show ?thesis using ne run k c2 by simp
qed

text \<open>
  Claim C1 as stated lets the position be \<open>len(s)\<close>, so that the character is appended
  after the last character. No run of \<open>fuzzCommand\<close> on \<open>ab\<close> returns \<open>ab!\<close>: position 2
  is never chosen.
\<close>

theorem fuzzCommand_append_position_counterexample:
  "\<not> (\<exists>w w'. fuzzCommand ''ab'' True w = Inr (''ab!'', w'))"
proof
  assume "\<exists>w w'. fuzzCommand ''ab'' True w = Inr (''ab!'', w')"
  then obtain w w' where h: "fuzzCommand ''ab'' True w = Inr (''ab!'', w')" by blast
  let ?i = "rand_seq w (rand_pos w) mod 2"
  let ?c = "specialChars ! (rand_seq w (Suc (rand_pos w)) mod 18)"
  from h fuzzCommand_nonempty [of "''ab''" w]
  have eq: "take ?i ''ab'' @ ?c # drop ?i ''ab'' = ''ab!''" by (simp add: numeral_2_eq_2)
  have "?i = 0 \<or> ?i = 1" by arith
  then show False using eq by auto
qed

text \<open>
  Claim C2: for the empty input string, \<open>fuzzCommand\<close> with fuzzing enabled is well
  defined, takes no remainder by zero and returns a one-character string.
  The code has no guard for the empty command: \<open>rand() % command.length()\<close> is
  evaluated with \<open>command.length() = 0\<close>, whatever \<open>rand()\<close> returns, so the call is
  undefined behaviour and returns no string. The program reaches that call: a run with
  \<open>--fuzz\<close> on a commands file whose only line is empty counts one line, samples it and
  passes the empty command to \<open>fuzzCommand\<close>.
\<close>

theorem fuzzCommand_empty_divides_by_zero:
  "fuzzCommand [] True w = Inl DivisionByZero
   \<and> main_run (example_args\<lparr>fuzzEnabled := True\<rparr>)
        (example_world\<lparr>files := [''commands.txt'' \<mapsto> [newline]], context_live := False\<rparr>)
       = Crashed DivisionByZero"
proof -
  have call: "fuzzCommand [] True w = Inl DivisionByZero"
    by (simp add: fuzzCommand_def rand_def cpp_rem_def)
  have run: "main_run (example_args\<lparr>fuzzEnabled := True\<rparr>)
        (example_world\<lparr>files := [''commands.txt'' \<mapsto> [newline]], context_live := False\<rparr>)
       = Crashed DivisionByZero"
    by (simp add: run_defs example_world_def example_args_def)
  from call run show ?thesis by simp
qed

text \<open>
  Claim C3: for every string \<open>s\<close>, the empty one included, \<open>fuzzCommand\<close> with fuzzing
  enabled returns a string of length \<open>len(s) + 1\<close> that holds the characters of \<open>s\<close> in
  their order and one more character, from \<open>specialChars\<close>; with fuzzing disabled it
  returns \<open>s\<close>.
  The code does so for every non-empty \<open>s\<close> and, disabled, for every \<open>s\<close>. For the empty
  string with fuzzing enabled it takes a remainder by zero and returns nothing.
\<close>

theorem fuzzCommand_length_and_order:
  "fuzzCommand s False w = Inr (s, w)
   \<and> (s \<noteq> [] \<longrightarrow>
        (\<exists>i c w'. fuzzCommand s True w = Inr (take i s @ c # drop i s, w')
           \<and> i \<le> length s \<and> c \<in> set specialChars
           \<and> length (take i s @ c # drop i s) = length s + 1))
   \<and> (s = [] \<longrightarrow> fuzzCommand s True w = Inl DivisionByZero)"
proof -
  have off: "fuzzCommand s False w = Inr (s, w)"
    by (simp add: fuzzCommand_def)
  have empty: "fuzzCommand [] True w = Inl DivisionByZero"
    by (simp add: fuzzCommand_def rand_def cpp_rem_def)
  have on: "\<exists>i c w'. fuzzCommand s True w = Inr (take i s @ c # drop i s, w')
           \<and> i \<le> length s \<and> c \<in> set specialChars
           \<and> length (take i s @ c # drop i s) = length s + 1" if ne: "s \<noteq> []"
  proof -
    let ?i = "rand_seq w (rand_pos w) mod length s"
    let ?k = "rand_seq w (Suc (rand_pos w)) mod 18"
    have i: "?i \<le> length s" using ne by (simp add: less_imp_le)
    have "?k < length specialChars" by (simp add: length_specialChars)
    then have c: "specialChars ! ?k \<in> set specialChars" by (rule nth_mem)
    have len: "length (take ?i s @ specialChars ! ?k # drop ?i s) = length s + 1"
      using i by simp
    from fuzzCommand_nonempty [OF ne, of w] i c len show ?thesis by blast
  qed
  from off empty on show ?thesis by blast
qed

theorem fuzzCommand_length_and_order_witness:
  "fuzzCommand [] True example_world = Inl DivisionByZero
   \<and> fuzzCommand [] False example_world = Inr ([], example_world)
   \<and> (\<exists>i c w'. fuzzCommand ''ab'' True example_world = Inr (take i ''ab'' @ c # drop i ''ab'', w')
           \<and> i \<le> length ''ab'' \<and> c \<in> set specialChars
           \<and> length (take i ''ab'' @ c # drop i ''ab'') = length ''ab'' + 1)"
  using fuzzCommand_length_and_order [of "[]" example_world]
        fuzzCommand_length_and_order [of "''ab''" example_world]
  by simp

section \<open>Sampling a command\<close>

text \<open>
  Claim C4: for a commands file with \<open>N \<ge> 1\<close> lines, \<open>countFileLines\<close> returns \<open>N\<close>,
  \<open>readLineFromFile(path, i)\<close> returns the line with index \<open>i\<close> (from 0) for every
  \<open>i\<close> in \<open>[0, N)\<close>, and \<open>randomCommand\<close> draws the index \<open>rand() % N\<close>, which lies in
  \<open>[0, N)\<close>, and returns exactly that line; every index below \<open>N\<close> is drawn, by the
  \<open>rand()\<close> value equal to it. Reading the file again on each call has no effect: the
  result is the list lookup, and the world changes only by the one call of \<open>rand()\<close>.
  (How \<open>rand()\<close> is distributed is not part of the model.)
\<close>

theorem sample_returns_line_at_index:
  assumes "files w path = Some content" and "file_lines content \<noteq> []"
  shows "countFileLines (files w) path = int (length (file_lines content))
     \<and> (\<forall>i. 0 \<le> i \<and> i < int (length (file_lines content))
            \<longrightarrow> readLineFromFile (files w) path i = file_lines content ! nat i)
     \<and> rand_seq w (rand_pos w) mod length (file_lines content) < length (file_lines content)
     \<and> randomCommand path (countFileLines (files w) path) w =
         Inr (file_lines content ! (rand_seq w (rand_pos w) mod length (file_lines content)),
              w\<lparr>rand_pos := Suc (rand_pos w)\<rparr>)
     \<and> (\<forall>i. i < length (file_lines content) \<and> rand_seq w (rand_pos w) = i
            \<longrightarrow> randomCommand path (countFileLines (files w) path) w =
                  Inr (file_lines content ! i, w\<lparr>rand_pos := Suc (rand_pos w)\<rparr>))"
proof -
  let ?N = "length (file_lines content)"
  let ?s = "open_in (files w) path"
  from assms(1) have stream: "buf ?s = content" "ok ?s"
    by (simp_all add: open_in_def)
  then have wf: "ok ?s \<or> buf ?s = []" by simp
  have count: "countFileLines (files w) path = int ?N"
    using countLoop_lines [OF wf, of "[]" 0] stream by (simp add: countFileLines_def)
  have read: "readLineFromFile (files w) path i = file_lines content ! nat i"
    if "0 \<le> i" "i < int ?N" for i
    using readLoop_lines [OF wf, of 0 i "[]"] stream that
    by (simp add: readLineFromFile_def)
  from assms(2) have pos: "?N \<noteq> 0" by simp
  then have idx: "rand_seq w (rand_pos w) mod ?N < ?N" by simp
  have sample: "randomCommand path (int ?N) w =
         Inr (file_lines content ! (rand_seq w (rand_pos w) mod ?N), w\<lparr>rand_pos := Suc (rand_pos w)\<rparr>)"
    using read [of "int (rand_seq w (rand_pos w) mod ?N)"] idx pos
    by (simp add: randomCommand_def rand_def cpp_rem_nat)
  have each: "randomCommand path (int ?N) w =
         Inr (file_lines content ! i, w\<lparr>rand_pos := Suc (rand_pos w)\<rparr>)"
    if "i < ?N \<and> rand_seq w (rand_pos w) = i" for i
    using sample that by simp
  from count read idx sample each show ?thesis by simp
qed

theorem sample_returns_line_at_index_witness:
  "files (example_world\<lparr>rand_pos := 1\<rparr>) ''commands.txt''
     = Some (''GET k'' @ [newline] @ ''SET k v'' @ [newline])
   \<and> file_lines (''GET k'' @ [newline] @ ''SET k v'' @ [newline]) = [''GET k'', ''SET k v'']
   \<and> countFileLines (files (example_world\<lparr>rand_pos := 1\<rparr>)) ''commands.txt'' = 2
   \<and> readLineFromFile (files (example_world\<lparr>rand_pos := 1\<rparr>)) ''commands.txt'' 0 = ''GET k''
   \<and> readLineFromFile (files (example_world\<lparr>rand_pos := 1\<rparr>)) ''commands.txt'' 1 = ''SET k v''
   \<and> randomCommand ''commands.txt'' 2 (example_world\<lparr>rand_pos := 1\<rparr>)
       = Inr (''SET k v'', example_world\<lparr>rand_pos := 2\<rparr>)"
proof -
  let ?w = "example_world\<lparr>rand_pos := 1\<rparr>"
  let ?content = "''GET k'' @ [newline] @ ''SET k v'' @ [newline]"
  have f: "files ?w ''commands.txt'' = Some ?content"
    by (simp add: example_world_def)
  have l: "file_lines ?content = [''GET k'', ''SET k v'']"
    by (simp add: newline_def)
  from l have ne: "file_lines ?content \<noteq> []" by simp
  have r: "rand_seq ?w (rand_pos ?w) = 1"
    by (simp add: example_world_def)
  note t = sample_returns_line_at_index [OF f ne, unfolded l r]
  from t have count: "countFileLines (files ?w) ''commands.txt'' = 2" by simp
  from t have "readLineFromFile (files ?w) ''commands.txt'' 0 = [''GET k'', ''SET k v''] ! nat 0"
    by simp
  then have read0: "readLineFromFile (files ?w) ''commands.txt'' 0 = ''GET k''" by simp
  from t have "readLineFromFile (files ?w) ''commands.txt'' 1 = [''GET k'', ''SET k v''] ! nat 1"
    by simp
  then have read1: "readLineFromFile (files ?w) ''commands.txt'' 1 = ''SET k v''" by simp
  have "(1::nat) < length [''GET k'', ''SET k v'']" by simp
  with t [THEN conjunct2, THEN conjunct2, THEN conjunct2, THEN conjunct2] count
  have "randomCommand ''commands.txt'' 2 ?w
       = Inr ([''GET k'', ''SET k v''] ! 1, ?w\<lparr>rand_pos := Suc (rand_pos ?w)\<rparr>)"
    by simp
  then have sample: "randomCommand ''commands.txt'' 2 ?w = Inr (''SET k v'', example_world\<lparr>rand_pos := 2\<rparr>)"
    by (simp add: example_world_def numeral_2_eq_2 [symmetric])
  from f l count read0 read1 sample show ?thesis by blast
qed

section \<open>One batch, step by step\<close>

text \<open>
  The lemmas of this section describe the world after each part of the loop body:
  what the generated commands are, what the temporary file holds, what was handed to
  the connection, how many replies were read and what was appended to the output file.
\<close>

lemma file_text_simps [simp]:
  "fs path = Some c \<Longrightarrow> file_text fs path = c"
  "fs path = None \<Longrightarrow> file_text fs path = []"
  by (simp_all add: file_text_def)

lemma write_file_text:
  "write_file path t w = w\<lparr>files := (files w)(path \<mapsto> file_text (files w) path @ t)\<rparr>"
  by (simp add: write_file_def file_text_def)

lemma unlines_simps [simp]:
  "unlines [] = []"
  "unlines (l # ls) = l @ newline # unlines ls"
  "unlines (ks @ ls) = unlines ks @ unlines ls"
  by (simp_all add: unlines_def)

lemma getline_no_newline:
  "newline \<notin> set line \<Longrightarrow> getline s line = (g, line', s') \<Longrightarrow> newline \<notin> set line'"
  by (auto simp: getline_def Let_def split: if_splits dest: set_takeWhileD)

lemma readLoop_no_newline:
  "newline \<notin> set line \<Longrightarrow> newline \<notin> set (readLoop s line cur lineNum)"
proof (induction s line cur lineNum rule: readLoop.induct)
  case (1 f line currentLine lineNum)
  obtain g line' f' where g: "getline f line = (g, line', f')"
    by (cases "getline f line") auto
  with "1.prems" have nl: "newline \<notin> set line'" by (rule getline_no_newline)
  show ?case
  proof (cases "g \<and> currentLine < lineNum")
    case True
    with "1.IH" [OF g [symmetric] refl True nl] g show ?thesis
      by (subst readLoop.simps) simp
  next
    case False
    with g nl show ?thesis
      by (subst readLoop.simps) auto
  qed
qed

lemma readLineFromFile_no_newline: "newline \<notin> set (readLineFromFile fs path i)"
  by (simp add: readLineFromFile_def readLoop_no_newline)

lemma randomCommand_Inr:
  "randomCommand path n w = Inr (cmd, w1) \<Longrightarrow>
     w1 = w\<lparr>rand_pos := Suc (rand_pos w)\<rparr> \<and> newline \<notin> set cmd \<and> n \<noteq> 0"
  by (auto simp: randomCommand_def rand_def cpp_rem_def readLineFromFile_no_newline
           split: if_splits)

lemma newline_not_special: "newline \<notin> set specialChars"
  by (simp add: specialChars_def newline_def)

lemma fuzzCommand_Inr:
  assumes "fuzzCommand cmd fz w = Inr (out, w2)"
  shows "w2 = w\<lparr>rand_pos := rand_pos w + (if fz then 2 else 0)\<rparr>
         \<and> (newline \<notin> set cmd \<longrightarrow> newline \<notin> set out)"
proof (cases fz)
  case False
  with assms show ?thesis by (simp add: fuzzCommand_def)
next
  case True
  show ?thesis
  proof (cases "cmd = []")
    case e: True
    with True assms show ?thesis
      by (simp add: fuzzCommand_def rand_def cpp_rem_def)
  next
    case ne: False
    let ?k = "rand_seq w (Suc (rand_pos w)) mod 18"
    have "?k < length specialChars" by (simp add: length_specialChars)
    then have "specialChars ! ?k \<in> set specialChars" by (rule nth_mem)
    with newline_not_special have c: "specialChars ! ?k \<noteq> newline" by metis
    from fuzzCommand_nonempty [OF ne, of w] assms True c show ?thesis
      by (auto dest: in_set_takeD in_set_dropD)
  qed
qed

lemma generateCommands_Inr:
  "generateCommands r p i cmds w = Inr (commands, w') \<Longrightarrow>
   files w (tempFileName r) = Some t \<Longrightarrow>
   \<exists>new. commands = cmds @ new \<and> length new = nat (p - i)
      \<and> list_all (\<lambda>l. newline \<notin> set l) new
      \<and> w' = w\<lparr>files := (files w)(tempFileName r \<mapsto> t @ unlines new),
                rand_pos := rand_pos w + nat (p - i) * (if fuzzEnabled r then 3 else 1)\<rparr>"
proof (induction r p i cmds w arbitrary: t rule: generateCommands.induct)
  case (1 r pipelineSize i commands0 w)
  show ?case
  proof (cases "i < pipelineSize")
    case False
    with "1.prems" have "commands = commands0" "w' = w"
      by (simp_all add: generateCommands.simps)
    moreover from "1.prems"(2) have "(files w)(tempFileName r \<mapsto> t) = files w"
      by (rule map_upd_triv)
    ultimately have "commands = commands0 @ [] \<and> length ([] :: string list) = nat (pipelineSize - i)
      \<and> list_all (\<lambda>l. newline \<notin> set l) []
      \<and> w' = w\<lparr>files := (files w)(tempFileName r \<mapsto> t @ unlines []),
                rand_pos := rand_pos w + nat (pipelineSize - i) * (if fuzzEnabled r then 3 else 1)\<rparr>"
      using False by simp
    then show ?thesis by blast
  next
    case True
    from True "1.prems"(1) obtain cmd w1 where
      rc: "randomCommand (commandsFile r) (fileLength r) w = Inr (cmd, w1)"
      by (subst (asm) generateCommands.simps) (auto split: sum.splits)
    from True "1.prems"(1) rc obtain fuzzedCmd w2 where
      fc: "fuzzCommand cmd (fuzzEnabled r) w1 = Inr (fuzzedCmd, w2)"
      by (subst (asm) generateCommands.simps) (auto split: sum.splits)
    let ?w3 = "write_line (tempFileName r) fuzzedCmd w2"
    from True "1.prems"(1) rc fc have
      rec: "generateCommands r pipelineSize (i + 1) (commands0 @ [fuzzedCmd]) ?w3 = Inr (commands, w')"
      by (subst (asm) generateCommands.simps) simp
    from randomCommand_Inr [OF rc] have w1: "w1 = w\<lparr>rand_pos := Suc (rand_pos w)\<rparr>"
      and nl1: "newline \<notin> set cmd" by simp_all
    from fuzzCommand_Inr [OF fc] nl1 have
      w2: "w2 = w1\<lparr>rand_pos := rand_pos w1 + (if fuzzEnabled r then 2 else 0)\<rparr>"
      and nl2: "newline \<notin> set fuzzedCmd" by simp_all
    have f3: "files ?w3 (tempFileName r) = Some (t @ fuzzedCmd @ [newline])"
      using "1.prems"(2) w1 w2 by (simp add: write_line_def write_file_def)
    from "1.IH" [OF True rc refl fc refl rec f3] obtain new where
      c: "commands = (commands0 @ [fuzzedCmd]) @ new" and
      l: "length new = nat (pipelineSize - (i + 1))" and
      n: "list_all (\<lambda>l. newline \<notin> set l) new" and
      w': "w' = ?w3\<lparr>files := (files ?w3)(tempFileName r \<mapsto> (t @ fuzzedCmd @ [newline]) @ unlines new),
                rand_pos := rand_pos ?w3 + nat (pipelineSize - (i + 1)) * (if fuzzEnabled r then 3 else 1)\<rparr>"
      by blast
    from True have step: "nat (pipelineSize - i) = Suc (nat (pipelineSize - (i + 1)))" by simp
    have "commands = commands0 @ (fuzzedCmd # new)" using c by simp
    moreover have "length (fuzzedCmd # new) = nat (pipelineSize - i)" using l step by simp
    moreover have "list_all (\<lambda>l. newline \<notin> set l) (fuzzedCmd # new)" using n nl2 by simp
    moreover have "w' = w\<lparr>files := (files w)(tempFileName r \<mapsto> t @ unlines (fuzzedCmd # new)),
                rand_pos := rand_pos w + nat (pipelineSize - i) * (if fuzzEnabled r then 3 else 1)\<rparr>"
      using w' w1 w2 "1.prems"(2) step
      by (simp add: write_line_def write_file_def)
    ultimately show ?thesis by blast
  qed
qed

lemma countFileLines_eq:
  "fs path = Some content \<Longrightarrow> countFileLines fs path = int (length (file_lines content))"
  using countLoop_lines [of "open_in fs path" "[]" 0]
  by (simp add: countFileLines_def open_in_def)

lemma readLineFromFile_eq:
  "fs path = Some content \<Longrightarrow> 0 \<le> i \<Longrightarrow> i < int (length (file_lines content)) \<Longrightarrow>
   readLineFromFile fs path i = file_lines content ! nat i"
  using readLoop_lines [of "open_in fs path" 0 i "[]"]
  by (simp add: readLineFromFile_def open_in_def)

lemma randomCommand_eq:
  assumes "files w path = Some content" and "file_lines content \<noteq> []"
  shows "randomCommand path (int (length (file_lines content))) w =
         Inr (file_lines content ! (rand_seq w (rand_pos w) mod length (file_lines content)),
              w\<lparr>rand_pos := Suc (rand_pos w)\<rparr>)"
proof -
  let ?N = "length (file_lines content)"
  from assms(2) have pos: "?N \<noteq> 0" by simp
  then have idx: "rand_seq w (rand_pos w) mod ?N < ?N" by simp
  with readLineFromFile_eq [of "files w" path content "int (rand_seq w (rand_pos w) mod ?N)"]
    assms(1) pos
  show ?thesis
    by (simp add: randomCommand_def rand_def cpp_rem_nat)
qed

lemma generateCommands_total_plain:
  "fileLength r \<noteq> 0 \<Longrightarrow> \<not> fuzzEnabled r \<Longrightarrow>
   \<exists>commands w'. generateCommands r p i cmds w = Inr (commands, w')"
proof (induction r p i cmds w rule: generateCommands.induct)
  case (1 r pipelineSize i commands0 w)
  show ?case
  proof (cases "i < pipelineSize")
    case False
    then show ?thesis by (simp add: generateCommands.simps)
  next
    case True
    let ?w1 = "w\<lparr>rand_pos := Suc (rand_pos w)\<rparr>"
    obtain cmd where rc: "randomCommand (commandsFile r) (fileLength r) w = Inr (cmd, ?w1)"
      using "1.prems"(1) by (simp add: randomCommand_def rand_def cpp_rem_def)
    have fc: "fuzzCommand cmd (fuzzEnabled r) ?w1 = Inr (cmd, ?w1)"
      using "1.prems"(2) by (simp add: fuzzCommand_def)
    from "1.IH" [OF True rc refl fc refl "1.prems"] True rc fc show ?thesis
      by (subst generateCommands.simps) simp
  qed
qed

lemma generateCommands_total_fuzz:
  "files w (commandsFile r) = Some content \<Longrightarrow> commandsFile r \<noteq> tempFileName r \<Longrightarrow>
   fileLength r = int (length (file_lines content)) \<Longrightarrow> [] \<notin> set (file_lines content) \<Longrightarrow>
   content \<noteq> [] \<Longrightarrow>
   \<exists>commands w'. generateCommands r p i cmds w = Inr (commands, w')"
proof (induction r p i cmds w rule: generateCommands.induct)
  case (1 r pipelineSize i commands0 w)
  show ?case
  proof (cases "i < pipelineSize")
    case False
    then show ?thesis by (simp add: generateCommands.simps)
  next
    case True
    let ?w1 = "w\<lparr>rand_pos := Suc (rand_pos w)\<rparr>"
    let ?N = "length (file_lines content)"
    let ?cmd = "file_lines content ! (rand_seq w (rand_pos w) mod ?N)"
    from "1.prems"(5) have ne: "file_lines content \<noteq> []" by simp
    from randomCommand_eq [OF "1.prems"(1) ne] "1.prems"(3)
    have rc: "randomCommand (commandsFile r) (fileLength r) w = Inr (?cmd, ?w1)" by simp
    from ne have "?cmd \<in> set (file_lines content)" by simp
    with "1.prems"(4) have cne: "?cmd \<noteq> []" by metis
    obtain out w2 where fc: "fuzzCommand ?cmd (fuzzEnabled r) ?w1 = Inr (out, w2)"
      using fuzzCommand_nonempty [OF cne, of ?w1]
      by (cases "fuzzEnabled r") (auto simp: fuzzCommand_def)
    from fuzzCommand_Inr [OF fc] have "files w2 = files w" by simp
    with "1.prems"(1,2) have
      f: "files (write_line (tempFileName r) out w2) (commandsFile r) = Some content"
      by (simp add: write_line_def write_file_def)
    from "1.IH" [OF True rc refl fc refl f "1.prems"(2-5)] True rc fc show ?thesis
      by (subst generateCommands.simps) simp
  qed
qed

lemma digits_no_newline: "newline \<notin> set (digits n)"
proof (induction n rule: digits.induct)
  case (1 n)
  have d: "''0123456789'' ! k \<noteq> newline" if "k < 10" for k
  proof -
    from that have "''0123456789'' ! k \<in> set ''0123456789''" by (intro nth_mem) simp
    then show ?thesis by (auto simp: newline_def)
  qed
  show ?case
  proof (cases "n < 10")
    case True
    with d [of n] show ?thesis by (subst digits.simps) simp
  next
    case False
    with "1.IH" d [of "n mod 10"] show ?thesis by (subst digits.simps) simp
  qed
qed

lemma to_string_no_newline: "newline \<notin> set (to_string i)"
proof -
  have "CHR ''-'' \<noteq> newline" by (simp add: newline_def)
  then show ?thesis by (simp add: to_string_def digits_no_newline)
qed

lemma pingCmd_no_newline: "newline \<notin> set (pingCmd r)"
proof -
  have "newline \<notin> set ''PING ''" by (simp add: newline_def)
  then show ?thesis by (simp add: pingCmd_def to_string_no_newline)
qed

lemma buildBatch_Inr:
  assumes "buildBatch r w = Inr (commands, w')" and "files w (tempFileName r) = Some []"
  shows "\<exists>cmds. commands = cmds @ [pingCmd r]
            \<and> length cmds = rand_seq w (rand_pos w) mod 10 + 1
            \<and> list_all (\<lambda>l. newline \<notin> set l) commands
            \<and> w' = w\<lparr>files := (files w)(tempFileName r \<mapsto> unlines commands),
                      rand_pos := rand_pos w + 1
                         + (rand_seq w (rand_pos w) mod 10 + 1) * (if fuzzEnabled r then 3 else 1)\<rparr>"
proof -
  let ?m = "rand_seq w (rand_pos w) mod 10"
  let ?w1 = "w\<lparr>rand_pos := Suc (rand_pos w)\<rparr>"
  have rem: "cpp_rem (int (rand_seq w (rand_pos w))) 10 = Inr (int ?m)"
    using cpp_rem_nat [of 10 "rand_seq w (rand_pos w)"] by simp
  from assms(1) rem obtain cmds w2 where
    gc: "generateCommands r (int ?m + 1) 0 [] ?w1 = Inr (cmds, w2)"
    by (auto simp: buildBatch_def rand_def Let_def split: sum.splits)
  with assms(1) rem have c: "commands = cmds @ [pingCmd r]"
    and w': "w' = write_line (tempFileName r) (pingCmd r) w2"
    by (simp_all add: buildBatch_def rand_def Let_def pingCmd_def)
  from assms(2) have f1: "files ?w1 (tempFileName r) = Some []" by simp
  from generateCommands_Inr [OF gc f1] obtain new where
    n: "cmds = new" "length new = nat (int ?m + 1 - 0)" "list_all (\<lambda>l. newline \<notin> set l) new"
    and w2: "w2 = ?w1\<lparr>files := (files ?w1)(tempFileName r \<mapsto> [] @ unlines new),
                rand_pos := rand_pos ?w1 + nat (int ?m + 1 - 0) * (if fuzzEnabled r then 3 else 1)\<rparr>"
    by auto
  have len: "length cmds = ?m + 1" using n by simp
  have nl: "list_all (\<lambda>l. newline \<notin> set l) commands"
    using n c pingCmd_no_newline by simp
  have "w' = w\<lparr>files := (files w)(tempFileName r \<mapsto> unlines commands),
                      rand_pos := rand_pos w + 1 + (?m + 1) * (if fuzzEnabled r then 3 else 1)\<rparr>"
    using w' w2 n(1) c by (simp add: write_line_def write_file_def nat_add_distrib)
  with c len nl show ?thesis by blast
qed

lemma getline_chars:
  assumes "getline s line = (g, line', s')" and "c \<notin> set (buf s)" and "c \<notin> set line"
  shows "c \<notin> set line' \<and> c \<notin> set (buf s')"
proof -
  let ?l = "takeWhile (\<lambda>c. c \<noteq> newline) (buf s)"
  let ?r = "dropWhile (\<lambda>c. c \<noteq> newline) (buf s)"
  from assms(2) have l: "c \<notin> set ?l" by (auto dest: set_takeWhileD)
  from assms(2) have "c \<notin> set ?r" by (auto dest: set_dropWhileD)
  then have r: "c \<notin> set (tl ?r)" by (metis list.sel(2) list.set_sel(2))
  from assms(1) have "(line' = line \<and> s' = s) \<or> (line' = [] \<and> buf s' = buf s)
      \<or> (line' = ?l \<and> buf s' = []) \<or> (line' = ?l \<and> buf s' = tl ?r)"
    by (auto simp: getline_def Let_def split: if_splits simp del: dropWhile_eq_Nil_conv)
  with assms(2,3) l r show ?thesis by auto
qed

lemma readLoop_chars:
  "c \<notin> set (buf s) \<Longrightarrow> c \<notin> set line \<Longrightarrow> c \<notin> set (readLoop s line cur lineNum)"
proof (induction s line cur lineNum rule: readLoop.induct)
  case (1 f line currentLine lineNum)
  obtain g line' f' where g: "getline f line = (g, line', f')"
    by (cases "getline f line") auto
  from getline_chars [OF g "1.prems"] have nl: "c \<notin> set line'" and nb: "c \<notin> set (buf f')"
    by simp_all
  show ?case
  proof (cases "g \<and> currentLine < lineNum")
    case True
    with "1.IH" [OF g [symmetric] refl True nb nl] g show ?thesis
      by (subst readLoop.simps) simp
  next
    case False
    with g nl show ?thesis
      by (subst readLoop.simps) auto
  qed
qed

lemma readLineFromFile_chars:
  "c \<notin> set (file_text fs path) \<Longrightarrow> c \<notin> set (readLineFromFile fs path i)"
  by (cases "fs path") (simp_all add: readLineFromFile_def open_in_def readLoop_chars)

lemma randomCommand_chars:
  "randomCommand path n w = Inr (cmd, w1) \<Longrightarrow> c \<notin> set (file_text (files w) path) \<Longrightarrow>
     c \<notin> set cmd"
  by (auto simp: randomCommand_def rand_def cpp_rem_def readLineFromFile_chars
           split: if_splits)

lemma nul_not_special: "nul \<notin> set specialChars"
  by (simp add: specialChars_def nul_def)

lemma fuzzCommand_no_nul:
  assumes "fuzzCommand cmd fz w = Inr (out, w2)" and "nul \<notin> set cmd"
  shows "nul \<notin> set out"
proof (cases fz)
  case False
  with assms show ?thesis by (simp add: fuzzCommand_def)
next
  case True
  show ?thesis
  proof (cases "cmd = []")
    case e: True
    with True assms show ?thesis
      by (simp add: fuzzCommand_def rand_def cpp_rem_def)
  next
    case ne: False
    let ?k = "rand_seq w (Suc (rand_pos w)) mod 18"
    have "?k < length specialChars" by (simp add: length_specialChars)
    then have "specialChars ! ?k \<in> set specialChars" by (rule nth_mem)
    with nul_not_special have c: "specialChars ! ?k \<noteq> nul" by metis
    from fuzzCommand_nonempty [OF ne, of w] assms True c show ?thesis
      by (auto dest: in_set_takeD in_set_dropD)
  qed
qed

lemma generateCommands_no_nul:
  "generateCommands r p i cmds w = Inr (commands, w') \<Longrightarrow>
   commandsFile r \<noteq> tempFileName r \<Longrightarrow>
   nul \<notin> set (file_text (files w) (commandsFile r)) \<Longrightarrow>
   list_all (\<lambda>l. nul \<notin> set l) cmds \<Longrightarrow>
   list_all (\<lambda>l. nul \<notin> set l) commands"
proof (induction r p i cmds w rule: generateCommands.induct)
  case (1 r pipelineSize i commands0 w)
  show ?case
  proof (cases "i < pipelineSize")
    case False
    with "1.prems" show ?thesis by (simp add: generateCommands.simps)
  next
    case True
    from True "1.prems"(1) obtain cmd w1 where
      rc: "randomCommand (commandsFile r) (fileLength r) w = Inr (cmd, w1)"
      by (subst (asm) generateCommands.simps) (auto split: sum.splits)
    from True "1.prems"(1) rc obtain fuzzedCmd w2 where
      fc: "fuzzCommand cmd (fuzzEnabled r) w1 = Inr (fuzzedCmd, w2)"
      by (subst (asm) generateCommands.simps) (auto split: sum.splits)
    let ?w3 = "write_line (tempFileName r) fuzzedCmd w2"
    from True "1.prems"(1) rc fc have
      rec: "generateCommands r pipelineSize (i + 1) (commands0 @ [fuzzedCmd]) ?w3 = Inr (commands, w')"
      by (subst (asm) generateCommands.simps) simp
    from randomCommand_Inr [OF rc] have w1: "w1 = w\<lparr>rand_pos := Suc (rand_pos w)\<rparr>"
      by simp
    from fuzzCommand_Inr [OF fc] have
      w2: "w2 = w1\<lparr>rand_pos := rand_pos w1 + (if fuzzEnabled r then 2 else 0)\<rparr>"
      by simp
    from randomCommand_chars [OF rc "1.prems"(3)] have "nul \<notin> set cmd" .
    with fc have n2: "nul \<notin> set fuzzedCmd" by (rule fuzzCommand_no_nul)
    have f3: "nul \<notin> set (file_text (files ?w3) (commandsFile r))"
      using "1.prems"(2,3) w1 w2 by (simp add: write_line_def write_file_def file_text_def)
    from "1.prems"(4) n2 have n3: "list_all (\<lambda>l. nul \<notin> set l) (commands0 @ [fuzzedCmd])"
      by simp
    from "1.IH" [OF True rc refl fc refl rec "1.prems"(2) f3 n3] show ?thesis .
  qed
qed

lemma digits_no_nul: "nul \<notin> set (digits n)"
proof (induction n rule: digits.induct)
  case (1 n)
  have d: "''0123456789'' ! k \<noteq> nul" if "k < 10" for k
  proof -
    from that have "''0123456789'' ! k \<in> set ''0123456789''" by (intro nth_mem) simp
    then show ?thesis by (auto simp: nul_def)
  qed
  show ?case
  proof (cases "n < 10")
    case True
    with d [of n] show ?thesis by (subst digits.simps) simp
  next
    case False
    with "1.IH" d [of "n mod 10"] show ?thesis by (subst digits.simps) simp
  qed
qed

lemma pingCmd_no_nul: "nul \<notin> set (pingCmd r)"
proof -
  have "CHR ''-'' \<noteq> nul" and "nul \<notin> set ''PING ''" by (simp_all add: nul_def)
  then show ?thesis by (simp add: pingCmd_def to_string_def digits_no_nul)
qed

lemma buildBatch_no_nul:
  assumes "buildBatch r w = Inr (commands, w')"
    and "commandsFile r \<noteq> tempFileName r"
    and "nul \<notin> set (file_text (files w) (commandsFile r))"
  shows "list_all (\<lambda>l. nul \<notin> set l) commands"
proof -
  let ?m = "rand_seq w (rand_pos w) mod 10"
  let ?w1 = "w\<lparr>rand_pos := Suc (rand_pos w)\<rparr>"
  have rem: "cpp_rem (int (rand_seq w (rand_pos w))) 10 = Inr (int ?m)"
    using cpp_rem_nat [of 10 "rand_seq w (rand_pos w)"] by simp
  from assms(1) rem obtain cmds w2 where
    gc: "generateCommands r (int ?m + 1) 0 [] ?w1 = Inr (cmds, w2)"
    by (auto simp: buildBatch_def rand_def Let_def split: sum.splits)
  with assms(1) rem have c: "commands = cmds @ [pingCmd r]"
    by (simp_all add: buildBatch_def rand_def Let_def pingCmd_def)
  from assms(3) have f1: "nul \<notin> set (file_text (files ?w1) (commandsFile r))" by simp
  from generateCommands_no_nul [OF gc assms(2) f1] have "list_all (\<lambda>l. nul \<notin> set l) cmds"
    by simp
  with c pingCmd_no_nul show ?thesis by simp
qed

lemma c_str_id: "nul \<notin> set s \<Longrightarrow> c_str s = s"
  by (auto simp: c_str_def takeWhile_eq_all_conv)

lemma map_c_str_id: "list_all (\<lambda>l. nul \<notin> set l) cs \<Longrightarrow> map c_str cs = cs"
  by (induction cs) (simp_all add: c_str_id)

lemma appendCommands_eq: "appendCommands cs w = w\<lparr>appended := appended w @ map c_str cs\<rparr>"
  by (induction cs arbitrary: w) (simp_all add: redisAppendCommand_def)

lemma getReplies_all_ok:
  "(\<forall>j. i \<le> j \<and> j < n \<longrightarrow> reply_ok w b j) \<Longrightarrow>
   getReplies b n i w =
     (True, w\<lparr>get_reply_calls := get_reply_calls w + (n - i),
              replies_read := replies_read w + (n - i)\<rparr>)"
proof (induction b n i w rule: getReplies.induct)
  case (1 batchNum count i w)
  show ?case
  proof (cases "i < count")
    case False
    then show ?thesis by (simp add: getReplies.simps)
  next
    case True
    let ?w1 = "w\<lparr>get_reply_calls := Suc (get_reply_calls w)\<rparr>"
    let ?w2 = "?w1\<lparr>replies_read := Suc (replies_read ?w1)\<rparr>"
    from True "1.prems" have good: "reply_ok w batchNum i" by simp
    from "1.prems" have rest: "\<forall>j. Suc i \<le> j \<and> j < count \<longrightarrow> reply_ok ?w2 batchNum j" by simp
    from good have ng: "\<not> \<not> reply_ok w batchNum i" by simp
    from "1.IH" [OF True refl ng rest] True good show ?thesis
      by (subst getReplies.simps) (simp add: Let_def Suc_diff_Suc)
  qed
qed

lemma getReplies_fails_at:
  "i \<le> k \<Longrightarrow> k < n \<Longrightarrow> (\<forall>j. i \<le> j \<and> j < k \<longrightarrow> reply_ok w b j) \<Longrightarrow> \<not> reply_ok w b k \<Longrightarrow>
   getReplies b n i w =
     (False, w\<lparr>get_reply_calls := get_reply_calls w + (k - i + 1),
               replies_read := replies_read w + (k - i),
               stderr := stderr w @ [reply_error]\<rparr>)"
proof (induction b n i w rule: getReplies.induct)
  case (1 batchNum count i w)
  from "1.prems"(1,2) have lt: "i < count" by simp
  let ?w1 = "w\<lparr>get_reply_calls := Suc (get_reply_calls w)\<rparr>"
  let ?w2 = "?w1\<lparr>replies_read := Suc (replies_read ?w1)\<rparr>"
  show ?case
  proof (cases "i = k")
    case True
    with "1.prems"(4) lt show ?thesis
      by (subst getReplies.simps) (simp add: Let_def cerr_def reply_error_def)
  next
    case False
    with "1.prems"(1) have ik: "Suc i \<le> k" by simp
    with "1.prems"(3) have good: "reply_ok w batchNum i" by simp
    then have ng: "\<not> \<not> reply_ok w batchNum i" by simp
    from "1.prems"(3) have rest: "\<forall>j. Suc i \<le> j \<and> j < k \<longrightarrow> reply_ok ?w2 batchNum j" by simp
    from "1.prems"(4) have bad: "\<not> reply_ok ?w2 batchNum k" by simp
    from "1.IH" [OF lt refl ng ik "1.prems"(2) rest bad] lt good ik show ?thesis
      by (subst getReplies.simps) (simp add: Let_def Suc_diff_Suc)
  qed
qed

lemma getReplies_cases:
  "(\<forall>j. i \<le> j \<and> j < n \<longrightarrow> reply_ok w b j)
   \<or> (\<exists>k. i \<le> k \<and> k < n \<and> (\<forall>j. i \<le> j \<and> j < k \<longrightarrow> reply_ok w b j) \<and> \<not> reply_ok w b k)"
proof (cases "\<forall>j. i \<le> j \<and> j < n \<longrightarrow> reply_ok w b j")
  case True
  then show ?thesis by simp
next
  case False
  then have ex: "\<exists>k. i \<le> k \<and> k < n \<and> \<not> reply_ok w b k" by blast
  define k where "k = (LEAST k. i \<le> k \<and> k < n \<and> \<not> reply_ok w b k)"
  from ex have k: "i \<le> k \<and> k < n \<and> \<not> reply_ok w b k"
    unfolding k_def by (rule LeastI_ex)
  have "reply_ok w b j" if "i \<le> j" "j < k" for j
  proof (rule ccontr)
    assume "\<not> reply_ok w b j"
    with that k have "i \<le> j \<and> j < n \<and> \<not> reply_ok w b j" by simp
    then have "k \<le> j" unfolding k_def by (rule Least_le)
    with that show False by simp
  qed
  with k show ?thesis by blast
qed

lemma copyLoop_eq:
  "ok s \<or> buf s = [] \<Longrightarrow> files w out = Some old \<Longrightarrow>
   copyLoop out s line w = w\<lparr>files := (files w)(out \<mapsto> old @ unlines (file_lines (buf s)))\<rparr>"
proof (induction "file_lines (buf s)" arbitrary: s line w old)
  case Nil
  from Nil.hyps [symmetric] have e: "buf s = []" by simp
  then have "fst (getline s line) = False" by (rule getline_at_end)
  moreover from Nil.prems(2) have "(files w)(out \<mapsto> old) = files w" by (rule map_upd_triv)
  ultimately show ?case using e
    by (subst copyLoop.simps) (auto split: prod.splits)
next
  case (Cons l ls)
  from Cons.hyps(2) have ne: "buf s \<noteq> []" by auto
  with Cons.prems have good: "ok s" by simp
  from getline_line [OF good ne, of line] obtain s' where
    g: "getline s line = (True, hd (file_lines (buf s)), s')" and
    rest: "file_lines (buf s') = tl (file_lines (buf s))" and wf: "ok s' \<or> buf s' = []"
    by blast
  from rest Cons.hyps(2) have ls: "ls = file_lines (buf s')" by (metis list.sel(3))
  from Cons.hyps(2) have l: "hd (file_lines (buf s)) = l" by (metis list.sel(1))
  let ?w1 = "write_line out l w"
  from Cons.prems(2) have f: "files ?w1 out = Some (old @ l @ [newline])"
    by (simp add: write_line_def write_file_def)
  from Cons.hyps(1) [OF ls wf f]
  have "copyLoop out s' l ?w1 = ?w1\<lparr>files := (files ?w1)(out \<mapsto> (old @ l @ [newline]) @ unlines (file_lines (buf s')))\<rparr>" .
  with g l ls Cons.hyps(2) [symmetric] show ?case
    by (subst copyLoop.simps) (simp add: write_line_def write_file_def)
qed

lemma buildBatch_truncated:
  assumes "buildBatch r (w\<lparr>files := (files w)(tempFileName r \<mapsto> [])\<rparr>) = Inr (commands, w1)"
  shows "appendCommands commands w1 = sent r commands w
       \<and> list_all (\<lambda>l. newline \<notin> set l) commands
       \<and> length commands = rand_seq w (rand_pos w) mod 10 + 2
       \<and> last commands = pingCmd r"
proof -
  let ?w0 = "w\<lparr>files := (files w)(tempFileName r \<mapsto> [])\<rparr>"
  have f: "files ?w0 (tempFileName r) = Some []" by simp
  from buildBatch_Inr [OF assms f] obtain cmds where
    c: "commands = cmds @ [pingCmd r]" and l: "length cmds = rand_seq ?w0 (rand_pos ?w0) mod 10 + 1"
    and n: "list_all (\<lambda>l. newline \<notin> set l) commands"
    and w1: "w1 = ?w0\<lparr>files := (files ?w0)(tempFileName r \<mapsto> unlines commands),
                      rand_pos := rand_pos ?w0 + 1
                         + (rand_seq ?w0 (rand_pos ?w0) mod 10 + 1) * (if fuzzEnabled r then 3 else 1)\<rparr>"
    by blast
  have "appendCommands commands w1 = sent r commands w"
    unfolding appendCommands_eq w1 by (simp add: sent_def rand_calls_def)
  moreover have "length commands = rand_seq w (rand_pos w) mod 10 + 2" using c l by simp
  moreover have "last commands = pingCmd r" using c by simp
  ultimately show ?thesis using n by blast
qed

lemma batchBody_temp_fail:
  "\<not> temp_open_ok w b \<Longrightarrow>
   batchBody r b w =
     Inl (Exited 1 (w\<lparr>stderr := stderr w @ [''Error opening temporary file for writing''],
                      context_live := False\<rparr>))"
  by (simp add: batchBody_def redisFree_def cerr_def)

lemma batchBody_crash:
  "temp_open_ok w b \<Longrightarrow>
   buildBatch r (w\<lparr>files := (files w)(tempFileName r \<mapsto> [])\<rparr>) = Inl e \<Longrightarrow>
   batchBody r b w = Inl (Crashed e)"
  by (simp add: batchBody_def)

lemma batchBody_reply_fail:
  assumes "temp_open_ok w b"
    and "buildBatch r (w\<lparr>files := (files w)(tempFileName r \<mapsto> [])\<rparr>) = Inr (commands, w1)"
    and "k < length commands" and "\<forall>j. j < k \<longrightarrow> reply_ok w b j" and "\<not> reply_ok w b k"
  shows "batchBody r b w =
     Inl (Exited 1 ((sent r commands w)
            \<lparr>get_reply_calls := get_reply_calls w + (k + 1),
             replies_read := replies_read w + k,
             stderr := stderr w @ [reply_error],
             context_live := False\<rparr>))"
proof -
  let ?ws = "sent r commands w"
  from buildBatch_truncated [OF assms(2)] have ws: "appendCommands commands w1 = ?ws" by simp
  have pre: "\<forall>j. 0 \<le> j \<and> j < k \<longrightarrow> reply_ok ?ws b j" using assms(4) by (simp add: sent_def)
  have bad: "\<not> reply_ok ?ws b k" using assms(5) by (simp add: sent_def)
  have "getReplies b (length commands) 0 ?ws =
     (False, ?ws\<lparr>get_reply_calls := get_reply_calls ?ws + (k - 0 + 1),
               replies_read := replies_read ?ws + (k - 0),
               stderr := stderr ?ws @ [reply_error]\<rparr>)"
    using assms(3) pre bad by (intro getReplies_fails_at) simp_all
  with assms(1,2) ws show ?thesis
    by (simp add: batchBody_def redisFree_def sent_def)
qed

lemma batchBody_log_fail:
  assumes "temp_open_ok w b"
    and "buildBatch r (w\<lparr>files := (files w)(tempFileName r \<mapsto> [])\<rparr>) = Inr (commands, w1)"
    and "\<forall>j. j < length commands \<longrightarrow> reply_ok w b j" and "\<not> log_open_ok w b"
  shows "batchBody r b w =
     Inl (Exited 1 ((sent r commands w)
            \<lparr>get_reply_calls := get_reply_calls w + length commands,
             replies_read := replies_read w + length commands,
             stderr := stderr w @ [''Error opening output file for writing''],
             context_live := False\<rparr>))"
proof -
  let ?ws = "sent r commands w"
  from buildBatch_truncated [OF assms(2)] have ws: "appendCommands commands w1 = ?ws" by simp
  have all: "\<forall>j. 0 \<le> j \<and> j < length commands \<longrightarrow> reply_ok ?ws b j"
    using assms(3) by (simp add: sent_def)
  from getReplies_all_ok [OF all] assms(1,2,4) ws show ?thesis
    by (simp add: batchBody_def redisFree_def cerr_def sent_def)
qed

lemma batchBody_done:
  assumes "temp_open_ok w b"
    and "buildBatch r (w\<lparr>files := (files w)(tempFileName r \<mapsto> [])\<rparr>) = Inr (commands, w1)"
    and "\<forall>j. j < length commands \<longrightarrow> reply_ok w b j" and "log_open_ok w b"
    and "tempFileName r \<noteq> outputFileName r"
  shows "batchBody r b w =
     Inr ((sent r commands w)
            \<lparr>get_reply_calls := get_reply_calls w + length commands,
             replies_read := replies_read w + length commands,
             files := (files w)(tempFileName r \<mapsto> unlines commands,
                                outputFileName r \<mapsto> file_text (files w) (outputFileName r)
                                                      @ log_entry b commands)\<rparr>)"
proof -
  let ?ws = "sent r commands w"
  let ?wr = "?ws\<lparr>get_reply_calls := get_reply_calls ?ws + (length commands - 0),
              replies_read := replies_read ?ws + (length commands - 0)\<rparr>"
  let ?header = "[newline] @ ''BATCH NUMBER - '' @ to_string b"
  let ?w3 = "write_line (outputFileName r) ?header ?wr"
  let ?old = "file_text (files w) (outputFileName r)"
  from buildBatch_truncated [OF assms(2)] have ws: "appendCommands commands w1 = ?ws"
    and nl: "list_all (\<lambda>l. newline \<notin> set l) commands" by simp_all
  have all: "\<forall>j. 0 \<le> j \<and> j < length commands \<longrightarrow> reply_ok ?ws b j"
    using assms(3) by (simp add: sent_def)
  have gr: "getReplies b (length commands) 0 ?ws = (True, ?wr)"
    using getReplies_all_ok [OF all] .
  have temp3: "files ?w3 (tempFileName r) = Some (unlines commands)"
    using assms(5) by (simp add: write_line_def write_file_def sent_def)
  have out3: "files ?w3 (outputFileName r) = Some (?old @ ?header @ [newline])"
    using assms(5) by (simp add: write_line_def write_file_text sent_def file_text_def)
  have stream: "buf (open_in (files ?w3) (tempFileName r)) = unlines commands"
      "ok (open_in (files ?w3) (tempFileName r))"
    using temp3 by (simp_all add: open_in_def)
  then have wf: "ok (open_in (files ?w3) (tempFileName r)) \<or> buf (open_in (files ?w3) (tempFileName r)) = []"
    by simp
  have copy: "copyLoop (outputFileName r) (open_in (files ?w3) (tempFileName r)) [] ?w3 =
        ?w3\<lparr>files := (files ?w3)(outputFileName r \<mapsto> (?old @ ?header @ [newline]) @ unlines commands)\<rparr>"
    using copyLoop_eq [OF wf out3, of "[]"] stream file_lines_unlines [OF nl] by simp
  have final: "?w3\<lparr>files := (files ?w3)(outputFileName r \<mapsto> (?old @ ?header @ [newline]) @ unlines commands)\<rparr>
      = ?ws\<lparr>get_reply_calls := get_reply_calls w + length commands,
             replies_read := replies_read w + length commands,
             files := (files w)(tempFileName r \<mapsto> unlines commands,
                                outputFileName r \<mapsto> ?old @ log_entry b commands)\<rparr>"
    by (simp add: write_line_def write_file_def sent_def log_entry_def)
  have "batchBody r b w = Inr (copyLoop (outputFileName r) (open_in (files ?w3) (tempFileName r)) [] ?w3)"
    using assms(1,2,4) ws gr
    by (simp add: batchBody_def Let_def sent_def del: getReplies.simps)
  with copy final show ?thesis by simp
qed

lemma batchBody_outcomes:
  assumes "tempFileName r \<noteq> outputFileName r"
  obtains
    (temp_fail) "\<not> temp_open_ok w b"
      "batchBody r b w =
         Inl (Exited 1 (w\<lparr>stderr := stderr w @ [''Error opening temporary file for writing''],
                          context_live := False\<rparr>))"
  | (crash) e where "temp_open_ok w b"
      "buildBatch r (w\<lparr>files := (files w)(tempFileName r \<mapsto> [])\<rparr>) = Inl e"
      "batchBody r b w = Inl (Crashed e)"
  | (reply_fail) commands w1 k where "temp_open_ok w b"
      "buildBatch r (w\<lparr>files := (files w)(tempFileName r \<mapsto> [])\<rparr>) = Inr (commands, w1)"
      "k < length commands" "\<forall>j. j < k \<longrightarrow> reply_ok w b j" "\<not> reply_ok w b k"
      "batchBody r b w =
         Inl (Exited 1 ((sent r commands w)
            \<lparr>get_reply_calls := get_reply_calls w + (k + 1),
             replies_read := replies_read w + k,
             stderr := stderr w @ [reply_error],
             context_live := False\<rparr>))"
  | (log_fail) commands w1 where "temp_open_ok w b"
      "buildBatch r (w\<lparr>files := (files w)(tempFileName r \<mapsto> [])\<rparr>) = Inr (commands, w1)"
      "\<forall>j. j < length commands \<longrightarrow> reply_ok w b j" "\<not> log_open_ok w b"
      "batchBody r b w =
         Inl (Exited 1 ((sent r commands w)
            \<lparr>get_reply_calls := get_reply_calls w + length commands,
             replies_read := replies_read w + length commands,
             stderr := stderr w @ [''Error opening output file for writing''],
             context_live := False\<rparr>))"
  | (logged) commands w1 where "temp_open_ok w b"
      "buildBatch r (w\<lparr>files := (files w)(tempFileName r \<mapsto> [])\<rparr>) = Inr (commands, w1)"
      "\<forall>j. j < length commands \<longrightarrow> reply_ok w b j" "log_open_ok w b"
      "batchBody r b w =
         Inr ((sent r commands w)
            \<lparr>get_reply_calls := get_reply_calls w + length commands,
             replies_read := replies_read w + length commands,
             files := (files w)(tempFileName r \<mapsto> unlines commands,
                                outputFileName r \<mapsto> file_text (files w) (outputFileName r)
                                                      @ log_entry b commands)\<rparr>)"
proof (cases "temp_open_ok w b")
  case False
  then show ?thesis by (rule temp_fail) (rule batchBody_temp_fail [OF False])
next
  case opened: True
  show ?thesis
  proof (cases "buildBatch r (w\<lparr>files := (files w)(tempFileName r \<mapsto> [])\<rparr>)")
    case (Inl e)
    from opened Inl batchBody_crash [OF opened Inl] show ?thesis by (rule crash)
  next
    case (Inr p)
    obtain commands w1 where p: "p = (commands, w1)" by (cases p)
    note built = Inr [unfolded p]
    from getReplies_cases [of 0 "length commands" w b] show ?thesis
    proof
      assume "\<forall>j. 0 \<le> j \<and> j < length commands \<longrightarrow> reply_ok w b j"
      then have all: "\<forall>j. j < length commands \<longrightarrow> reply_ok w b j" by simp
      show ?thesis
      proof (cases "log_open_ok w b")
        case True
        from opened built all True batchBody_done [OF opened built all True assms]
        show ?thesis by (rule logged)
      next
        case False
        from opened built all False batchBody_log_fail [OF opened built all False]
        show ?thesis by (rule log_fail)
      qed
    next
      assume "\<exists>k. 0 \<le> k \<and> k < length commands \<and> (\<forall>j. 0 \<le> j \<and> j < k \<longrightarrow> reply_ok w b j)
                \<and> \<not> reply_ok w b k"
      then obtain k where k: "k < length commands" "\<forall>j. j < k \<longrightarrow> reply_ok w b j" "\<not> reply_ok w b k"
        by auto
      from opened built k batchBody_reply_fail [OF opened built k]
      show ?thesis by (rule reply_fail)
    qed
  qed
qed

lemma buildBatch_total_plain:
  assumes "fileLength r \<noteq> 0" and "\<not> fuzzEnabled r"
  shows "\<exists>commands w'. buildBatch r w = Inr (commands, w')"
proof -
  let ?m = "rand_seq w (rand_pos w) mod 10"
  have rem: "cpp_rem (int (rand_seq w (rand_pos w))) 10 = Inr (int ?m)"
    using cpp_rem_nat [of 10 "rand_seq w (rand_pos w)"] by simp
  from generateCommands_total_plain [OF assms, of "int ?m + 1" 0 "[]" "w\<lparr>rand_pos := Suc (rand_pos w)\<rparr>"]
  obtain cmds w2 where
    "generateCommands r (int ?m + 1) 0 [] (w\<lparr>rand_pos := Suc (rand_pos w)\<rparr>) = Inr (cmds, w2)"
    by blast
  with rem show ?thesis
    by (simp add: buildBatch_def rand_def Let_def)
qed

lemma buildBatch_total_fuzz:
  assumes "files w (commandsFile r) = Some content" and "commandsFile r \<noteq> tempFileName r"
    and "fileLength r = int (length (file_lines content))" and "[] \<notin> set (file_lines content)"
    and "content \<noteq> []"
  shows "\<exists>commands w'. buildBatch r w = Inr (commands, w')"
proof -
  let ?m = "rand_seq w (rand_pos w) mod 10"
  let ?w1 = "w\<lparr>rand_pos := Suc (rand_pos w)\<rparr>"
  have rem: "cpp_rem (int (rand_seq w (rand_pos w))) 10 = Inr (int ?m)"
    using cpp_rem_nat [of 10 "rand_seq w (rand_pos w)"] by simp
  from assms(1) have f: "files ?w1 (commandsFile r) = Some content" by simp
  from generateCommands_total_fuzz [OF f assms(2-5), of "int ?m + 1" 0 "[]"]
  obtain cmds w2 where "generateCommands r (int ?m + 1) 0 [] ?w1 = Inr (cmds, w2)"
    by blast
  with rem show ?thesis
    by (simp add: buildBatch_def rand_def Let_def)
qed

lemma example_build:
  "buildBatch example_run
     (example_world\<lparr>reply_ok := f,
        files := (files example_world)(tempFileName example_run \<mapsto> [])\<rparr>)
   = Inr ([''SET k v'', ''PING 6379''],
       example_world\<lparr>reply_ok := f,
         files := (files example_world)
           (tempFileName example_run \<mapsto> ''SET k v'' @ [newline] @ ''PING 6379'' @ [newline]),
         rand_pos := 2\<rparr>)"
  by (simp add: run_defs example_world_def example_run_def)

lemma example_body:
  "batchBody example_run 1 example_world
   = Inr (example_world\<lparr>files := (files example_world)
             (tempFileName example_run \<mapsto> ''SET k v'' @ [newline] @ ''PING 6379'' @ [newline],
              outputFileName example_run \<mapsto>
                [newline] @ ''BATCH NUMBER - 1'' @ [newline]
                  @ ''SET k v'' @ [newline] @ ''PING 6379'' @ [newline]),
            rand_pos := 2, appended := [''SET k v'', ''PING 6379''],
            get_reply_calls := 2, replies_read := 2\<rparr>)"
  by (simp add: run_defs example_world_def example_run_def)

lemma example_build_fuzz:
  "buildBatch (example_run\<lparr>fuzzEnabled := True\<rparr>)
     (example_world\<lparr>files := (files example_world)(tempFileName example_run \<mapsto> [])\<rparr>)
   = Inr ([''SE$T k v'', ''PING 6379''],
       example_world\<lparr>files := (files example_world)
           (tempFileName example_run \<mapsto> ''SE$T k v'' @ [newline] @ ''PING 6379'' @ [newline]),
         rand_pos := 4\<rparr>)"
  by (simp add: run_defs example_world_def example_run_def)

lemma example_body_reply_fail:
  "batchBody example_run 1 (example_world\<lparr>reply_ok := (\<lambda>b i. i \<noteq> 1)\<rparr>)
   = Inl (Exited 1 (example_world\<lparr>reply_ok := (\<lambda>b i. i \<noteq> 1),
            files := (files example_world)
             (tempFileName example_run \<mapsto> ''SET k v'' @ [newline] @ ''PING 6379'' @ [newline]),
            rand_pos := 2, appended := [''SET k v'', ''PING 6379''],
            get_reply_calls := 2, replies_read := 1,
            stderr := [''Error: Failed to execute commands on Redis server''],
            context_live := False\<rparr>))"
  by (simp add: run_defs example_world_def example_run_def)

lemma nul_build:
  "buildBatch nul_run (nul_world\<lparr>files := (files nul_world)(tempFileName nul_run \<mapsto> [])\<rparr>)
   = Inr ([''GET'' @ [nul] @ ''k'', ''PING 6379''],
       nul_world\<lparr>files := (files nul_world)
           (tempFileName nul_run \<mapsto>
              ''GET'' @ [nul] @ ''k'' @ [newline] @ ''PING 6379'' @ [newline]),
         rand_pos := 2\<rparr>)"
  by (simp add: run_defs nul_world_def nul_run_def example_world_def example_run_def)

lemma nul_body:
  "batchBody nul_run 1 nul_world
   = Inr (nul_world\<lparr>files := (files nul_world)
             (tempFileName nul_run \<mapsto>
                ''GET'' @ [nul] @ ''k'' @ [newline] @ ''PING 6379'' @ [newline],
              outputFileName nul_run \<mapsto>
                [newline] @ ''BATCH NUMBER - 1'' @ [newline]
                  @ ''GET'' @ [nul] @ ''k'' @ [newline] @ ''PING 6379'' @ [newline]),
            rand_pos := 2, appended := [''GET'', ''PING 6379''],
            get_reply_calls := 2, replies_read := 2\<rparr>)"
  by (simp add: run_defs nul_world_def nul_run_def example_world_def example_run_def)

lemma nul_main:
  "\<exists>w'. main_run example_args (nul_world\<lparr>context_live := False\<rparr>) = Exited 0 w'
     \<and> file_lines (file_text (files w') (outputFileName nul_run))
          = [[], ''BATCH NUMBER - 1'', ''GET'' @ [nul] @ ''k'', ''PING 6379'']
     \<and> appended w' = [''GET'', ''PING 6379'']"
  by (simp add: run_defs nul_world_def nul_run_def example_world_def example_run_def
        example_args_def file_text_def)

section \<open>The paths through \<open>main\<close>\<close>

text \<open>
  The four ways through \<open>main\<close> once the temporary file exists: an empty or unreadable
  commands file, a failed connection, a loop that stops the run, and a loop that runs to
  its end.
\<close>

lemma main_run_empty:
  "createTempFile w = Inr (t, w1) \<Longrightarrow> countFileLines (files w1) (commandsFile a) = 0 \<Longrightarrow>
   main_run a w = Exited 1 (cerr ''Error: Commands file is empty or cannot be read'' w1)"
  by (simp add: main_run_def Let_def)

lemma main_run_no_connection:
  "createTempFile w = Inr (t, w1) \<Longrightarrow> countFileLines (files w1) (commandsFile a) \<noteq> 0 \<Longrightarrow>
   \<not> connect_ok w1 \<Longrightarrow>
   main_run a w = Exited 1 (cerr ''Connection error'' w1)"
  by (simp add: main_run_def Let_def)

lemma main_run_loop_stop:
  "createTempFile w = Inr (t, w1) \<Longrightarrow> countFileLines (files w1) (commandsFile a) \<noteq> 0 \<Longrightarrow>
   connect_ok w1 \<Longrightarrow> mainLoop (run_of a t w1) 1 (w1\<lparr>context_live := True\<rparr>) = Inl stop \<Longrightarrow>
   main_run a w = stop"
  by (simp add: main_run_def Let_def run_of_def)

lemma main_run_loop_done:
  "createTempFile w = Inr (t, w1) \<Longrightarrow> countFileLines (files w1) (commandsFile a) \<noteq> 0 \<Longrightarrow>
   connect_ok w1 \<Longrightarrow> mainLoop (run_of a t w1) 1 (w1\<lparr>context_live := True\<rparr>) = Inr w2 \<Longrightarrow>
   main_run a w = Exited 0 (w2\<lparr>context_live := False, files := (files w2)(t := None)\<rparr>)"
  by (simp add: main_run_def Let_def run_of_def redisFree_def)

lemma createTempFile_Some:
  "mkstemp_name w = Some t \<Longrightarrow> createTempFile w = Inr (t, w\<lparr>files := (files w)(t \<mapsto> [])\<rparr>)"
  by (simp add: createTempFile_def)

section \<open>The composition of a batch\<close>

text \<open>
  Claim C5: every batch that the main loop builds has \<open>pipelineSize + 1\<close> commands, where
  \<open>pipelineSize = rand() % 10 + 1\<close> lies in \<open>[1, 10]\<close>, and its last command is
  \<open>PING\<close>, a space and the port in decimal. The \<open>PING\<close> command is not passed to
  \<open>fuzzCommand\<close>: it is the last command as it stands, also when fuzzing is enabled, and
  building the batch calls \<open>rand()\<close> once for the size and, per generated command, once
  for the line and twice more when fuzzing is enabled, and not for the \<open>PING\<close>.
  A batch is built whenever \<open>fileLength\<close> is not zero and fuzzing is disabled, and, with
  fuzzing enabled, whenever the commands file has no empty line. Every size \<open>k\<close> in
  \<open>[1, 10]\<close> is drawn, by the \<open>rand()\<close> value \<open>k - 1\<close>.
  (How \<open>rand()\<close> is distributed is not part of the model.)
\<close>

theorem batch_length_and_probe:
  "(\<forall>commands w'.
      buildBatch r (w\<lparr>files := (files w)(tempFileName r \<mapsto> [])\<rparr>) = Inr (commands, w') \<longrightarrow>
      (\<exists>pipelineSize.
         pipelineSize = rand_seq w (rand_pos w) mod 10 + 1
         \<and> 1 \<le> pipelineSize \<and> pipelineSize \<le> 10
         \<and> length commands = pipelineSize + 1
         \<and> last commands = ''PING '' @ to_string (port r)
         \<and> rand_pos w' = rand_pos w + 1 + pipelineSize * (if fuzzEnabled r then 3 else 1)))
   \<and> (fileLength r \<noteq> 0 \<and> \<not> fuzzEnabled r \<longrightarrow>
        (\<exists>commands w'.
           buildBatch r (w\<lparr>files := (files w)(tempFileName r \<mapsto> [])\<rparr>) = Inr (commands, w')))
   \<and> (\<forall>content.
        files w (commandsFile r) = Some content \<and> commandsFile r \<noteq> tempFileName r
        \<and> fileLength r = int (length (file_lines content))
        \<and> content \<noteq> [] \<and> [] \<notin> set (file_lines content) \<longrightarrow>
        (\<exists>commands w'.
           buildBatch r (w\<lparr>files := (files w)(tempFileName r \<mapsto> [])\<rparr>) = Inr (commands, w')))
   \<and> (\<forall>k commands w'.
        1 \<le> k \<and> k \<le> 10 \<and> rand_seq w (rand_pos w) = k - 1
        \<and> buildBatch r (w\<lparr>files := (files w)(tempFileName r \<mapsto> [])\<rparr>) = Inr (commands, w')
        \<longrightarrow> length commands = k + 1)"
proof -
  let ?w0 = "w\<lparr>files := (files w)(tempFileName r \<mapsto> [])\<rparr>"
  let ?p = "rand_seq w (rand_pos w) mod 10 + 1"
  have shape: "\<exists>pipelineSize.
         pipelineSize = ?p \<and> 1 \<le> pipelineSize \<and> pipelineSize \<le> 10
         \<and> length commands = pipelineSize + 1
         \<and> last commands = ''PING '' @ to_string (port r)
         \<and> rand_pos w' = rand_pos w + 1 + pipelineSize * (if fuzzEnabled r then 3 else 1)"
    if built: "buildBatch r ?w0 = Inr (commands, w')" for commands w'
  proof -
    have f: "files ?w0 (tempFileName r) = Some []" by simp
    from buildBatch_Inr [OF built f] obtain cmds where
      c: "commands = cmds @ [pingCmd r]" and l: "length cmds = ?p"
      and w': "w' = ?w0\<lparr>files := (files ?w0)(tempFileName r \<mapsto> unlines commands),
                rand_pos := rand_pos ?w0 + 1
                  + (rand_seq ?w0 (rand_pos ?w0) mod 10 + 1) * (if fuzzEnabled r then 3 else 1)\<rparr>"
      by auto
    have "length commands = ?p + 1" using c l by simp
    moreover have "last commands = ''PING '' @ to_string (port r)"
      using c by (simp add: pingCmd_def)
    moreover have "rand_pos w' = rand_pos w + 1 + ?p * (if fuzzEnabled r then 3 else 1)"
      unfolding w' by simp
    moreover have "1 \<le> ?p" "?p \<le> 10" by simp_all
    ultimately show ?thesis by blast
  qed
  have plain: "\<exists>commands w'. buildBatch r ?w0 = Inr (commands, w')"
    if "fileLength r \<noteq> 0 \<and> \<not> fuzzEnabled r"
    using that buildBatch_total_plain [of r ?w0] by blast
  have fuzz: "\<exists>commands w'. buildBatch r ?w0 = Inr (commands, w')"
    if h: "files w (commandsFile r) = Some content \<and> commandsFile r \<noteq> tempFileName r
        \<and> fileLength r = int (length (file_lines content))
        \<and> content \<noteq> [] \<and> [] \<notin> set (file_lines content)" for content
  proof -
    from h have f: "files ?w0 (commandsFile r) = Some content" by simp
    from h buildBatch_total_fuzz [OF f, of ] show ?thesis by blast
  qed
  have each: "length commands = k + 1"
    if h: "1 \<le> k \<and> k \<le> 10 \<and> rand_seq w (rand_pos w) = k - 1
        \<and> buildBatch r ?w0 = Inr (commands, w')" for k commands w'
  proof -
    from h have "rand_seq w (rand_pos w) mod 10 + 1 = k" by auto
    with shape [of commands w'] h show ?thesis by auto
  qed
  from shape plain fuzz each show ?thesis by blast
qed

theorem batch_length_and_probe_witness:
  "fileLength example_run \<noteq> 0 \<and> \<not> fuzzEnabled example_run
   \<and> (\<exists>commands w'.
        buildBatch example_run
          (example_world\<lparr>files := (files example_world)(tempFileName example_run \<mapsto> [])\<rparr>)
          = Inr (commands, w')
        \<and> length commands = 2 \<and> last commands = ''PING '' @ to_string 6379 \<and> rand_pos w' = 2)
   \<and> fuzzEnabled (example_run\<lparr>fuzzEnabled := True\<rparr>)
   \<and> (\<exists>commands w'.
        buildBatch (example_run\<lparr>fuzzEnabled := True\<rparr>)
          (example_world\<lparr>files := (files example_world)(tempFileName example_run \<mapsto> [])\<rparr>)
          = Inr (commands, w')
        \<and> commands = [''SE$T k v'', ''PING 6379'']
        \<and> length commands = 2 \<and> last commands = ''PING '' @ to_string 6379 \<and> rand_pos w' = 4)"
proof -
  let ?w0 = "example_world\<lparr>files := (files example_world)(tempFileName example_run \<mapsto> [])\<rparr>"
  let ?fr = "example_run\<lparr>fuzzEnabled := True\<rparr>"
  let ?content = "''GET k'' @ [newline] @ ''SET k v'' @ [newline]"
  have h: "fileLength example_run \<noteq> 0 \<and> \<not> fuzzEnabled example_run"
    by (simp add: example_run_def)
  note t = batch_length_and_probe [of example_run example_world]
  from t h obtain commands w' where built: "buildBatch example_run ?w0 = Inr (commands, w')"
    by blast
  with t have "\<exists>pipelineSize.
         pipelineSize = rand_seq example_world (rand_pos example_world) mod 10 + 1
         \<and> 1 \<le> pipelineSize \<and> pipelineSize \<le> 10
         \<and> length commands = pipelineSize + 1
         \<and> last commands = ''PING '' @ to_string (port example_run)
         \<and> rand_pos w' = rand_pos example_world + 1
              + pipelineSize * (if fuzzEnabled example_run then 3 else 1)"
    by blast
  then have plain: "length commands = 2 \<and> last commands = ''PING '' @ to_string 6379 \<and> rand_pos w' = 2"
    by (simp add: example_world_def example_run_def)
  have l: "file_lines ?content = [''GET k'', ''SET k v'']"
    by (simp add: newline_def)
  have hf: "files example_world (commandsFile ?fr) = Some ?content
        \<and> commandsFile ?fr \<noteq> tempFileName ?fr
        \<and> fileLength ?fr = int (length (file_lines ?content))
        \<and> ?content \<noteq> [] \<and> [] \<notin> set (file_lines ?content)"
    unfolding l by (simp add: example_world_def example_run_def)
  note tf = batch_length_and_probe [of ?fr example_world]
  have tn: "tempFileName ?fr = tempFileName example_run" by simp
  from tf hf obtain fcommands fw' where fbuilt: "buildBatch ?fr ?w0 = Inr (fcommands, fw')"
    unfolding tn by blast
  with example_build_fuzz have fc: "fcommands = [''SE$T k v'', ''PING 6379'']" by simp
  from tf fbuilt have "\<exists>pipelineSize.
         pipelineSize = rand_seq example_world (rand_pos example_world) mod 10 + 1
         \<and> 1 \<le> pipelineSize \<and> pipelineSize \<le> 10
         \<and> length fcommands = pipelineSize + 1
         \<and> last fcommands = ''PING '' @ to_string (port ?fr)
         \<and> rand_pos fw' = rand_pos example_world + 1
              + pipelineSize * (if fuzzEnabled ?fr then 3 else 1)"
    unfolding tn by blast
  then have fuzz: "length fcommands = 2 \<and> last fcommands = ''PING '' @ to_string 6379 \<and> rand_pos fw' = 4"
    by (simp add: example_world_def example_run_def)
  have "fuzzEnabled ?fr" by simp
  with h built plain fbuilt fc fuzz show ?thesis by blast
qed

text \<open>
  Claim C6 as stated: in every batch, the lines written to the temporary file, the
  commands handed to the connection and the command lines appended to the output file
  are the same sequence, in the same order. The code hands \<open>cmd.c_str()\<close> to the
  connection (line 187), which ends at the first NUL byte of \<open>cmd\<close>, while both files
  receive every byte of \<open>cmd\<close>. On a commands file whose line is \<open>GET\<close>, a NUL byte,
  \<open>k\<close>, the batch completes, the temporary file and the output file hold that line and
  the connection was handed \<open>GET\<close>; so does the run of \<open>main\<close> with one batch on that
  commands file, which ends with status 0.
\<close>

theorem batch_sequences_nul_counterexample:
  "(\<exists>w'. batchBody nul_run 1 nul_world = Inr w'
     \<and> file_lines (file_text (files w') (tempFileName nul_run))
          = [''GET'' @ [nul] @ ''k'', ''PING 6379'']
     \<and> file_lines (file_text (files w') (outputFileName nul_run))
          = [[], ''BATCH NUMBER - 1'', ''GET'' @ [nul] @ ''k'', ''PING 6379'']
     \<and> appended w' = [''GET'', ''PING 6379'']
     \<and> appended w' \<noteq> file_lines (file_text (files w') (tempFileName nul_run)))
   \<and> (\<exists>w'. main_run example_args (nul_world\<lparr>context_live := False\<rparr>) = Exited 0 w'
     \<and> file_lines (file_text (files w') (outputFileName nul_run))
          = [[], ''BATCH NUMBER - 1'', ''GET'' @ [nul] @ ''k'', ''PING 6379'']
     \<and> appended w' = [''GET'', ''PING 6379''])"
  using nul_main unfolding nul_body
  by (simp add: nul_world_def nul_run_def example_world_def example_run_def
        newline_def nul_def)

text \<open>
  Claim C6 (as amended): in every batch, the lines written to the temporary file and the
  command lines appended to the output file are the vector \<open>commands\<close>, in its order,
  and the connection is handed, in the same order, \<open>cmd.c_str()\<close> for each \<open>cmd\<close> of
  \<open>commands\<close>: the bytes of \<open>cmd\<close> before its first NUL byte. When the commands file
  has no NUL byte (and is not the temporary file), no command has one and the three
  sequences are the same. For a batch that completes this holds of all three; for a
  batch that stops at a failed reply or at the output file, it holds of the temporary file
  and the connection, and nothing is appended to the output file.
  The two file names differ in every run: \<open>mkstemp\<close> returns the prefix
  \<open>/tmp/redis-commands-\<close> followed by six characters, the output file has the same
  prefix followed by fourteen digits and \<open>.log\<close>.
\<close>

theorem batch_sequences_agree:
  assumes "tempFileName r \<noteq> outputFileName r"
  shows "(\<forall>w'. batchBody r b w = Inr w' \<longrightarrow>
           (\<exists>commands w1.
              buildBatch r (w\<lparr>files := (files w)(tempFileName r \<mapsto> [])\<rparr>) = Inr (commands, w1)
              \<and> files w' (tempFileName r) = Some (unlines commands)
              \<and> file_lines (unlines commands) = commands
              \<and> appended w' = appended w @ map c_str commands
              \<and> file_text (files w') (outputFileName r) =
                  file_text (files w) (outputFileName r)
                    @ [newline] @ ''BATCH NUMBER - '' @ to_string b @ [newline]
                    @ unlines commands
              \<and> (commandsFile r \<noteq> tempFileName r
                   \<and> nul \<notin> set (file_text (files w) (commandsFile r))
                 \<longrightarrow> list_all (\<lambda>cmd. nul \<notin> set cmd) commands
                     \<and> appended w' = appended w @ commands)))
       \<and> (\<forall>n w'. batchBody r b w = Inl (Exited n w') \<and> temp_open_ok w b \<longrightarrow>
           (\<exists>commands w1.
              buildBatch r (w\<lparr>files := (files w)(tempFileName r \<mapsto> [])\<rparr>) = Inr (commands, w1)
              \<and> files w' (tempFileName r) = Some (unlines commands)
              \<and> file_lines (unlines commands) = commands
              \<and> appended w' = appended w @ map c_str commands
              \<and> files w' (outputFileName r) = files w (outputFileName r)
              \<and> (commandsFile r \<noteq> tempFileName r
                   \<and> nul \<notin> set (file_text (files w) (commandsFile r))
                 \<longrightarrow> list_all (\<lambda>cmd. nul \<notin> set cmd) commands
                     \<and> appended w' = appended w @ commands)))"
proof -
  let ?start = "w\<lparr>files := (files w)(tempFileName r \<mapsto> [])\<rparr>"
  have lines: "file_lines (unlines commands) = commands"
    if "buildBatch r ?start = Inr (commands, w1)" for commands w1
    using buildBatch_truncated [OF that] by (simp add: file_lines_unlines)
  have clean: "list_all (\<lambda>cmd. nul \<notin> set cmd) commands \<and> map c_str commands = commands"
    if "buildBatch r ?start = Inr (commands, w1)"
      and "commandsFile r \<noteq> tempFileName r"
      and "nul \<notin> set (file_text (files w) (commandsFile r))" for commands w1
  proof -
    from that(2,3) have "nul \<notin> set (file_text (files ?start) (commandsFile r))"
      by (simp add: file_text_def)
    from buildBatch_no_nul [OF that(1,2) this] show ?thesis by (simp add: map_c_str_id)
  qed
  from assms show ?thesis
  proof (cases rule: batchBody_outcomes [where r = r and w = w and b = b])
    case temp_fail
    then show ?thesis by simp
  next
    case (crash e)
    then show ?thesis by simp
  next
    case (reply_fail commands w1 k)
    from reply_fail(2) lines [OF reply_fail(2)] clean [OF reply_fail(2)] assms show ?thesis
      unfolding reply_fail(6) by (simp add: sent_def)
  next
    case (log_fail commands w1)
    from log_fail(2) lines [OF log_fail(2)] clean [OF log_fail(2)] assms show ?thesis
      unfolding log_fail(5) by (simp add: sent_def)
  next
    case (logged commands w1)
    from logged(2) lines [OF logged(2)] clean [OF logged(2)] assms show ?thesis
      unfolding logged(5) by (simp add: sent_def log_entry_def)
  qed
qed

theorem batch_sequences_agree_witness:
  "tempFileName example_run \<noteq> outputFileName example_run
   \<and> commandsFile example_run \<noteq> tempFileName example_run
   \<and> nul \<notin> set (file_text (files example_world) (commandsFile example_run))
   \<and> (\<exists>w' commands. batchBody example_run 1 example_world = Inr w'
        \<and> commands = [''SET k v'', ''PING 6379'']
        \<and> files w' (tempFileName example_run) = Some (unlines commands)
        \<and> file_lines (unlines commands) = commands
        \<and> appended w' = appended example_world @ map c_str commands
        \<and> list_all (\<lambda>cmd. nul \<notin> set cmd) commands
        \<and> appended w' = appended example_world @ commands
        \<and> file_text (files w') (outputFileName example_run) =
            file_text (files example_world) (outputFileName example_run)
              @ [newline] @ ''BATCH NUMBER - '' @ to_string 1 @ [newline] @ unlines commands)
   \<and> temp_open_ok (example_world\<lparr>reply_ok := (\<lambda>b i. i \<noteq> 1)\<rparr>) 1
   \<and> (\<exists>w' commands.
        batchBody example_run 1 (example_world\<lparr>reply_ok := (\<lambda>b i. i \<noteq> 1)\<rparr>)
          = Inl (Exited 1 w')
        \<and> commands = [''SET k v'', ''PING 6379'']
        \<and> files w' (tempFileName example_run) = Some (unlines commands)
        \<and> file_lines (unlines commands) = commands
        \<and> appended w' = appended example_world @ map c_str commands
        \<and> list_all (\<lambda>cmd. nul \<notin> set cmd) commands
        \<and> appended w' = appended example_world @ commands
        \<and> files w' (outputFileName example_run) = files example_world (outputFileName example_run))"
proof -
  let ?wf = "example_world\<lparr>reply_ok := (\<lambda>b i. i \<noteq> 1)\<rparr>"
  have ne: "tempFileName example_run \<noteq> outputFileName example_run"
    by (simp add: example_run_def)
  have nc: "commandsFile example_run \<noteq> tempFileName example_run"
    by (simp add: example_run_def)
  have nn: "nul \<notin> set (file_text (files example_world) (commandsFile example_run))"
    by (simp add: example_world_def example_run_def file_text_def nul_def newline_def)
  have nf: "nul \<notin> set (file_text (files ?wf) (commandsFile example_run))"
    using nn by simp
  from example_body obtain w' where body: "batchBody example_run 1 example_world = Inr w'"
    by blast
  have build: "buildBatch example_run
     (example_world\<lparr>files := (files example_world)(tempFileName example_run \<mapsto> [])\<rparr>)
     = Inr ([''SET k v'', ''PING 6379''],
       example_world\<lparr>files := (files example_world)
           (tempFileName example_run \<mapsto> ''SET k v'' @ [newline] @ ''PING 6379'' @ [newline]),
         rand_pos := 2\<rparr>)"
    using example_build [of "reply_ok example_world"] by simp
  from batch_sequences_agree [OF ne, of 1 example_world] body build nc nn
  have completed: "files w' (tempFileName example_run) = Some (unlines [''SET k v'', ''PING 6379''])
        \<and> file_lines (unlines [''SET k v'', ''PING 6379'']) = [''SET k v'', ''PING 6379'']
        \<and> appended w' = appended example_world @ map c_str [''SET k v'', ''PING 6379'']
        \<and> list_all (\<lambda>cmd. nul \<notin> set cmd) [''SET k v'', ''PING 6379'']
        \<and> appended w' = appended example_world @ [''SET k v'', ''PING 6379'']
        \<and> file_text (files w') (outputFileName example_run) =
            file_text (files example_world) (outputFileName example_run)
              @ [newline] @ ''BATCH NUMBER - '' @ to_string 1 @ [newline]
              @ unlines [''SET k v'', ''PING 6379'']"
    by auto
  have op: "temp_open_ok ?wf 1" by (simp add: example_world_def)
  from example_body_reply_fail obtain v' where
    stopped: "batchBody example_run 1 ?wf = Inl (Exited 1 v')" by blast
  have buildf: "buildBatch example_run (?wf\<lparr>files := (files ?wf)(tempFileName example_run \<mapsto> [])\<rparr>)
     = Inr ([''SET k v'', ''PING 6379''],
       example_world\<lparr>reply_ok := (\<lambda>b i. i \<noteq> 1),
         files := (files example_world)
           (tempFileName example_run \<mapsto> ''SET k v'' @ [newline] @ ''PING 6379'' @ [newline]),
         rand_pos := 2\<rparr>)"
    using example_build [of "\<lambda>b i. i \<noteq> 1"] by simp
  from batch_sequences_agree [OF ne, of 1 ?wf] stopped op buildf nc nf
  have failed: "files v' (tempFileName example_run) = Some (unlines [''SET k v'', ''PING 6379''])
        \<and> file_lines (unlines [''SET k v'', ''PING 6379'']) = [''SET k v'', ''PING 6379'']
        \<and> appended v' = appended example_world @ map c_str [''SET k v'', ''PING 6379'']
        \<and> list_all (\<lambda>cmd. nul \<notin> set cmd) [''SET k v'', ''PING 6379'']
        \<and> appended v' = appended example_world @ [''SET k v'', ''PING 6379'']
        \<and> files v' (outputFileName example_run) = files example_world (outputFileName example_run)"
    by auto
  from ne nc nn body completed op stopped failed show ?thesis by blast
qed

text \<open>
  Claim C7: if the \<open>N\<close>-th reply read of a batch fails, exactly \<open>N - 1\<close> replies were
  read, \<open>redisGetReply\<close> was called \<open>N\<close> times and not again, nothing is appended to the
  output file, the connection is freed and the loop returns status 1 at once: the world
  it returns is the one the failed batch left, so no later batch sampled a command
  (\<open>rand_pos\<close>), handed one to the connection (\<open>appended\<close>, which holds each command
  of the failed batch as the C string \<open>cmd.c_str()\<close>) or wrote to the output file.
  A run of \<open>main\<close> whose loop comes to this batch ends with status 1 in that world.
\<close>

theorem reply_failure_stops_the_run:
  assumes "tempFileName r \<noteq> outputFileName r"
    and "temp_open_ok w b"
    and "buildBatch r (w\<lparr>files := (files w)(tempFileName r \<mapsto> [])\<rparr>) = Inr (commands, w1)"
    and "1 \<le> N" and "N \<le> length commands"
    and "\<forall>j. j < N - 1 \<longrightarrow> reply_ok w b j" and "\<not> reply_ok w b (N - 1)"
    and "b \<le> numBatches r"
  shows "\<exists>w'. batchBody r b w = Inl (Exited 1 w') \<and> mainLoop r b w = Inl (Exited 1 w')
      \<and> get_reply_calls w' = get_reply_calls w + N
      \<and> replies_read w' = replies_read w + (N - 1)
      \<and> files w' (outputFileName r) = files w (outputFileName r)
      \<and> appended w' = appended w @ map c_str commands
      \<and> rand_pos w' = rand_pos w1
      \<and> \<not> context_live w'
      \<and> stderr w' = stderr w @ [''Error: Failed to execute commands on Redis server'']
      \<and> (\<forall>a w0 t ws.
            createTempFile w0 = Inr (t, ws)
            \<and> countFileLines (files ws) (commandsFile a) \<noteq> 0 \<and> connect_ok ws
            \<and> mainLoop (run_of a t ws) 1 (ws\<lparr>context_live := True\<rparr>) = mainLoop r b w
            \<longrightarrow> main_run a w0 = Exited 1 w')"
proof -
  let ?w' = "(sent r commands w)
            \<lparr>get_reply_calls := get_reply_calls w + (N - 1 + 1),
             replies_read := replies_read w + (N - 1),
             stderr := stderr w @ [reply_error],
             context_live := False\<rparr>"
  from assms(4,5) have k: "N - 1 < length commands" by simp
  have body: "batchBody r b w = Inl (Exited 1 ?w')"
    using assms(2,3) k assms(6,7) by (rule batchBody_reply_fail)
  with assms(8) have loop: "mainLoop r b w = Inl (Exited 1 ?w')"
    by (subst mainLoop.simps) simp
  have f: "files (w\<lparr>files := (files w)(tempFileName r \<mapsto> [])\<rparr>) (tempFileName r) = Some []"
    by simp
  from buildBatch_Inr [OF assms(3) f] have rp: "rand_pos w1 = rand_pos w + rand_calls r w"
    by (auto simp: rand_calls_def)
  from assms(4) have n: "N - 1 + 1 = N" by simp
  have "get_reply_calls ?w' = get_reply_calls w + N" using n by simp
  moreover have "replies_read ?w' = replies_read w + (N - 1)" by simp
  moreover have "files ?w' (outputFileName r) = files w (outputFileName r)"
    using assms(1) by (simp add: sent_def)
  moreover have "appended ?w' = appended w @ map c_str commands" by (simp add: sent_def)
  moreover have "rand_pos ?w' = rand_pos w1" using rp by (simp add: sent_def)
  moreover have "\<not> context_live ?w'" by simp
  moreover have "stderr ?w' = stderr w @ [''Error: Failed to execute commands on Redis server'']"
    by (simp add: reply_error_def)
  moreover have "main_run a w0 = Exited 1 ?w'"
    if h: "createTempFile w0 = Inr (t, ws)
            \<and> countFileLines (files ws) (commandsFile a) \<noteq> 0 \<and> connect_ok ws
            \<and> mainLoop (run_of a t ws) 1 (ws\<lparr>context_live := True\<rparr>) = mainLoop r b w"
    for a w0 t ws
  proof -
    from h loop have "mainLoop (run_of a t ws) 1 (ws\<lparr>context_live := True\<rparr>) = Inl (Exited 1 ?w')"
      by simp
    with h show ?thesis by (intro main_run_loop_stop) simp_all
  qed
  ultimately show ?thesis using body loop by blast
qed

theorem reply_failure_stops_the_run_witness:
  "\<exists>w'. main_run (example_args\<lparr>numBatches := 2\<rparr>)
          (example_world\<lparr>context_live := False, reply_ok := (\<lambda>b i. i \<noteq> 1)\<rparr>) = Exited 1 w'
      \<and> get_reply_calls w' = 2 \<and> replies_read w' = 1
      \<and> files w' (outputFileName example_run) = None
      \<and> appended w' = [''SET k v'', ''PING 6379'']
      \<and> rand_pos w' = 2
      \<and> \<not> context_live w'
      \<and> stderr w' = [''Error: Failed to execute commands on Redis server'']"
proof -
  let ?a = "example_args\<lparr>numBatches := 2\<rparr>"
  let ?start = "example_world\<lparr>context_live := False, reply_ok := (\<lambda>b i. i \<noteq> 1)\<rparr>"
  let ?made = "?start\<lparr>files := (files ?start)(tempFileName example_run \<mapsto> [])\<rparr>"
  let ?entry = "?made\<lparr>context_live := True\<rparr>"
  let ?built = "example_world\<lparr>reply_ok := (\<lambda>b i. i \<noteq> 1),
         files := (files example_world)
           (tempFileName example_run \<mapsto> ''SET k v'' @ [newline] @ ''PING 6379'' @ [newline]),
         rand_pos := 2\<rparr>"
  have ne: "tempFileName example_run \<noteq> outputFileName example_run"
    by (simp add: example_run_def)
  have op: "temp_open_ok ?entry 1" by (simp add: example_world_def)
  have same: "?entry\<lparr>files := (files ?entry)(tempFileName example_run \<mapsto> [])\<rparr>
     = example_world\<lparr>reply_ok := (\<lambda>b i. i \<noteq> 1),
         files := (files example_world)(tempFileName example_run \<mapsto> [])\<rparr>"
    by (simp add: example_world_def)
  have build: "buildBatch example_run (?entry\<lparr>files := (files ?entry)(tempFileName example_run \<mapsto> [])\<rparr>)
     = Inr ([''SET k v'', ''PING 6379''], ?built)"
    unfolding same by (rule example_build)
  have n1: "(1::nat) \<le> 2" and n2: "2 \<le> length [''SET k v'', ''PING 6379'']" by simp_all
  have pre: "\<forall>j. j < 2 - 1 \<longrightarrow> reply_ok ?entry 1 j" by (simp add: example_world_def)
  have bad: "\<not> reply_ok ?entry 1 (2 - 1)" by (simp add: example_world_def)
  have b: "1 \<le> numBatches example_run" by (simp add: example_run_def)
  have ct: "createTempFile ?start = Inr (tempFileName example_run, ?made)"
    by (simp add: createTempFile_def example_world_def example_run_def)
  have len: "countFileLines (files ?made) (commandsFile ?a) \<noteq> 0"
    by (simp add: example_world_def example_args_def example_run_def countFileLines_def
          countLoop.simps getline_def open_in_def newline_def)
  have conn: "connect_ok ?made" by (simp add: example_world_def)
  have ts: "timestamp ?made = ''20240101120000''" by (simp add: example_world_def)
  have cnt: "countFileLines (files ?made) (commandsFile ?a) = 2"
    by (simp add: example_world_def example_args_def example_run_def countFileLines_def
          countLoop.simps getline_def open_in_def newline_def)
  have r: "run_of ?a (tempFileName example_run) ?made = example_run"
    using ts cnt by (simp add: run_of_def example_args_def example_run_def createOutputFile_def)
  have reach: "mainLoop (run_of ?a (tempFileName example_run) ?made) 1 (?made\<lparr>context_live := True\<rparr>)
                 = mainLoop example_run 1 ?entry"
    unfolding r ..
  from reply_failure_stops_the_run [OF ne op build n1 n2 pre bad b] ct len conn reach
  obtain w' where "main_run ?a ?start = Exited 1 w'"
      "get_reply_calls w' = get_reply_calls ?entry + 2"
      "replies_read w' = replies_read ?entry + (2 - 1)"
      "files w' (outputFileName example_run) = files ?entry (outputFileName example_run)"
      "appended w' = appended ?entry @ map c_str [''SET k v'', ''PING 6379'']"
      "rand_pos w' = rand_pos ?built"
      "\<not> context_live w'"
      "stderr w' = stderr ?entry @ [''Error: Failed to execute commands on Redis server'']"
    by blast
  then show ?thesis
    by (auto simp: example_world_def example_run_def c_str_def nul_def)
qed

section \<open>The main loop\<close>

text \<open>What a batch that completes, and a batch that stops, leave behind; then the loop.\<close>

lemma file_text_upd [simp]:
  "file_text (fs(p \<mapsto> c)) p = c"
  "q \<noteq> p \<Longrightarrow> file_text (fs(p \<mapsto> c)) q = file_text fs q"
  by (simp_all add: file_text_def)

lemma batchBody_Inr:
  assumes "tempFileName r \<noteq> outputFileName r" and "batchBody r b w = Inr w'"
  shows "\<exists>commands. list_all (\<lambda>l. newline \<notin> set l) commands
      \<and> appended w' = appended w @ map c_str commands
      \<and> files w' (tempFileName r) = Some (unlines commands)
      \<and> file_text (files w') (outputFileName r)
           = file_text (files w) (outputFileName r) @ log_entry b commands
      \<and> context_live w' = context_live w"
  using assms(1)
proof (cases rule: batchBody_outcomes [where r = r and w = w and b = b])
  case temp_fail
  with assms(2) show ?thesis by simp
next
  case (crash e)
  with assms(2) show ?thesis by simp
next
  case (reply_fail commands w1 k)
  with assms(2) show ?thesis by simp
next
  case (log_fail commands w1)
  with assms(2) show ?thesis by simp
next
  case (logged commands w1)
  from buildBatch_truncated [OF logged(2)]
  have nl: "list_all (\<lambda>l. newline \<notin> set l) commands" by simp
  from logged(5) assms have
    "w' = (sent r commands w)
            \<lparr>get_reply_calls := get_reply_calls w + length commands,
             replies_read := replies_read w + length commands,
             files := (files w)(tempFileName r \<mapsto> unlines commands,
                                outputFileName r \<mapsto> file_text (files w) (outputFileName r)
                                                      @ log_entry b commands)\<rparr>"
    by simp
  with nl assms(1) show ?thesis by (auto simp: sent_def)
qed

lemma batchBody_Inl:
  assumes "tempFileName r \<noteq> outputFileName r" and "batchBody r b w = Inl (Exited n w')"
  shows "n = 1 \<and> \<not> context_live w'
      \<and> files w' (outputFileName r) = files w (outputFileName r)"
  using assms(1)
proof (cases rule: batchBody_outcomes [where r = r and w = w and b = b])
  case temp_fail
  with assms(2) show ?thesis by auto
next
  case (crash e)
  with assms(2) show ?thesis by simp
next
  case (reply_fail commands w1 k)
  with assms show ?thesis by (auto simp: sent_def)
next
  case (log_fail commands w1)
  with assms show ?thesis by (auto simp: sent_def)
next
  case (logged commands w1)
  with assms(2) show ?thesis by simp
qed

lemma batchBody_Inl_temp:
  assumes "tempFileName r \<noteq> outputFileName r" and "batchBody r b w = Inl (Exited n w')"
    and "files w (tempFileName r) \<noteq> None"
  shows "files w' (tempFileName r) \<noteq> None"
  using assms(1)
proof (cases rule: batchBody_outcomes [where r = r and w = w and b = b])
  case temp_fail
  with assms(2,3) show ?thesis by auto
next
  case (crash e)
  with assms(2) show ?thesis by simp
next
  case (reply_fail commands w1 k)
  with assms show ?thesis by (auto simp: sent_def)
next
  case (log_fail commands w1)
  with assms show ?thesis by (auto simp: sent_def)
next
  case (logged commands w1)
  with assms(2) show ?thesis by simp
qed


lemma mainLoop_Inl:
  "tempFileName r \<noteq> outputFileName r \<Longrightarrow> mainLoop r b w = Inl (Exited n w') \<Longrightarrow>
   n = 1 \<and> \<not> context_live w'
   \<and> (files w (tempFileName r) \<noteq> None \<longrightarrow> files w' (tempFileName r) \<noteq> None)
   \<and> (\<exists>css. length css < nat (numBatches r + 1 - b)
        \<and> file_text (files w') (outputFileName r)
           = file_text (files w) (outputFileName r) @ log_entries b css)"
proof (induction r b w rule: mainLoop.induct)
  case (1 r batchNum w)
  from "1.prems"(2) have True: "batchNum \<le> numBatches r"
    by (subst (asm) mainLoop.simps) (simp split: if_splits)
  show ?case
  proof (cases "batchBody r batchNum w")
    case (Inl stop)
    with True "1.prems"(2) have stop: "batchBody r batchNum w = Inl (Exited n w')"
      by (subst (asm) mainLoop.simps) simp
    from batchBody_Inl [OF "1.prems"(1) stop]
    have "n = 1 \<and> \<not> context_live w'"
      and same: "files w' (outputFileName r) = files w (outputFileName r)"
      by simp_all
    moreover from batchBody_Inl_temp [OF "1.prems"(1) stop]
    have "files w (tempFileName r) \<noteq> None \<longrightarrow> files w' (tempFileName r) \<noteq> None"
      by blast
    moreover from True same have "length ([] :: string list list) < nat (numBatches r + 1 - batchNum)
        \<and> file_text (files w') (outputFileName r)
           = file_text (files w) (outputFileName r) @ log_entries batchNum []"
      by (simp add: file_text_def)
    ultimately show ?thesis by blast
  next
    case (Inr w2)
    with True "1.prems"(2) have rest: "mainLoop r (batchNum + 1) w2 = Inl (Exited n w')"
      by (subst (asm) mainLoop.simps) simp
    from batchBody_Inr [OF "1.prems"(1) Inr] obtain cs where
      t: "files w2 (tempFileName r) = Some (unlines cs)" and
      l: "file_text (files w2) (outputFileName r)
           = file_text (files w) (outputFileName r) @ log_entry batchNum cs"
      by blast
    from t have t': "files w2 (tempFileName r) \<noteq> None" by simp
    from "1.IH" [OF True Inr "1.prems"(1) rest] t' obtain css where
      facts: "n = 1 \<and> \<not> context_live w' \<and> files w' (tempFileName r) \<noteq> None" and
      n: "length css < nat (numBatches r + 1 - (batchNum + 1))" and
      l': "file_text (files w') (outputFileName r)
           = file_text (files w2) (outputFileName r) @ log_entries (batchNum + 1) css"
      by blast
    from n have "length (cs # css) < nat (numBatches r + 1 - batchNum)" by simp
    moreover from l l' have "file_text (files w') (outputFileName r)
           = file_text (files w) (outputFileName r) @ log_entries batchNum (cs # css)" by simp
    ultimately show ?thesis using facts by blast
  qed
qed


section \<open>The run as a whole\<close>



lemma example_main_done:
  "main_run example_args (example_world\<lparr>context_live := False\<rparr>) =
     Exited 0 (example_world\<lparr>context_live := False,
        files := (files example_world)
           (''/tmp/redis-commands-20240101120000.log'' \<mapsto>
                [newline] @ ''BATCH NUMBER - 1'' @ [newline]
                  @ ''SET k v'' @ [newline] @ ''PING 6379'' @ [newline]),
        rand_pos := 2, appended := [''SET k v'', ''PING 6379''], get_reply_calls := 2,
        replies_read := 2\<rparr>)"
  by (simp add: run_defs example_world_def example_args_def)

text \<open>
  Claim C8: on every exit path of the run, the normal end and every error exit, the
  connection is released and the temporary file is removed before the program ends.
  The code does both at the normal end (status 0). On every error exit after the
  temporary file was created (an empty commands file, a failed connection, the temporary
  file not opening, a failed reply, the output file not opening) it returns status 1 with
  no live connection, but \<open>std::remove\<close> is not called and the temporary file is still
  there. The only clean-up at the error exits of the loop is \<open>redisFree\<close>.
\<close>

theorem error_exits_keep_scratch_file:
  assumes "mkstemp_name w = Some t" and "t \<noteq> createOutputFile w" and "\<not> context_live w"
  shows "(\<forall>w'. main_run a w = Exited 0 w' \<longrightarrow> \<not> context_live w' \<and> files w' t = None)
       \<and> (\<forall>n w'. main_run a w = Exited n w' \<and> n \<noteq> 0 \<longrightarrow>
              n = 1 \<and> \<not> context_live w' \<and> files w' t \<noteq> None)"
proof -
  define w1 where "w1 = w\<lparr>files := (files w)(t \<mapsto> [])\<rparr>"
  define r where "r = run_of a t w1"
  have ct: "createTempFile w = Inr (t, w1)"
    unfolding w1_def using assms(1) by (rule createTempFile_Some)
  have live1: "\<not> context_live w1" and temp1: "files w1 t = Some []"
    and conn1: "connect_ok w1 = connect_ok w"
    using assms(3) by (simp_all add: w1_def)
  have ne: "tempFileName r \<noteq> outputFileName r"
    using assms(2) by (simp add: r_def run_of_def w1_def createOutputFile_def)
  have tn: "tempFileName r = t" by (simp add: r_def run_of_def)
  show ?thesis
  proof (cases "countFileLines (files w1) (commandsFile a) = 0")
    case True
    from main_run_empty [OF ct True] live1 temp1 show ?thesis
      by (simp add: cerr_def)
  next
    case len: False
    show ?thesis
    proof (cases "connect_ok w1")
      case False
      from main_run_no_connection [OF ct len False] live1 temp1 show ?thesis
        by (simp add: cerr_def)
    next
      case True
      show ?thesis
      proof (cases "mainLoop r 1 (w1\<lparr>context_live := True\<rparr>)")
        case (Inl stop)
        from main_run_loop_stop [OF ct len True Inl [unfolded r_def]]
        have run: "main_run a w = stop" .
        show ?thesis
        proof (cases stop)
          case (Exited n w')
          have "files (w1\<lparr>context_live := True\<rparr>) (tempFileName r) \<noteq> None"
            using temp1 tn by simp
          with mainLoop_Inl [OF ne Inl [unfolded Exited]]
          have "n = 1 \<and> \<not> context_live w' \<and> files w' t \<noteq> None"
            using tn by simp
          with run Exited show ?thesis by simp
        next
          case (Crashed e)
          with run show ?thesis by simp
        qed
      next
        case (Inr w2)
        from main_run_loop_done [OF ct len True Inr [unfolded r_def]] show ?thesis
          by simp
      qed
    qed
  qed
qed

theorem error_exits_keep_scratch_file_witness:
  "mkstemp_name (example_world\<lparr>context_live := False\<rparr>) = Some ''/tmp/redis-commands-a1B2c3''
   \<and> (\<exists>w'. main_run example_args (example_world\<lparr>context_live := False\<rparr>) = Exited 0 w'
        \<and> \<not> context_live w' \<and> files w' ''/tmp/redis-commands-a1B2c3'' = None)
   \<and> (\<exists>w'. main_run example_args
           (example_world\<lparr>context_live := False, reply_ok := (\<lambda>b i. False)\<rparr>) = Exited 1 w'
        \<and> \<not> context_live w'
        \<and> files w' ''/tmp/redis-commands-a1B2c3''
             = Some (''SET k v'' @ [newline] @ ''PING 6379'' @ [newline]))"
proof -
  let ?v = "example_world\<lparr>context_live := False\<rparr>"
  let ?w = "example_world\<lparr>context_live := False, reply_ok := (\<lambda>b i. False)\<rparr>"
  have mv: "mkstemp_name ?v = Some ''/tmp/redis-commands-a1B2c3''"
    by (simp add: example_world_def)
  have ov: "''/tmp/redis-commands-a1B2c3'' \<noteq> createOutputFile ?v"
    by (simp add: createOutputFile_def)
  have cv: "\<not> context_live ?v" by simp
  from example_main_done obtain v' where
    finished: "main_run example_args ?v = Exited 0 v'" by blast
  with error_exits_keep_scratch_file [OF mv ov cv, of example_args]
  have normal: "\<not> context_live v' \<and> files v' ''/tmp/redis-commands-a1B2c3'' = None" by blast
  have m: "mkstemp_name ?w = Some ''/tmp/redis-commands-a1B2c3''"
    by (simp add: example_world_def)
  have o: "''/tmp/redis-commands-a1B2c3'' \<noteq> createOutputFile ?w"
    by (simp add: createOutputFile_def)
  have c: "\<not> context_live ?w" by simp
  have run: "main_run example_args ?w =
     Exited 1 (example_world\<lparr>context_live := False, reply_ok := (\<lambda>b i. False),
        files := (files example_world)
           (''/tmp/redis-commands-a1B2c3'' \<mapsto> ''SET k v'' @ [newline] @ ''PING 6379'' @ [newline]),
        rand_pos := 2, appended := [''SET k v'', ''PING 6379''], get_reply_calls := 1,
        stderr := [''Error: Failed to execute commands on Redis server'']\<rparr>)"
    by (simp add: run_defs example_world_def example_args_def)
  from error_exits_keep_scratch_file [OF m o c, of example_args] run
  have failed: "\<exists>w'. main_run example_args ?w = Exited 1 w'
        \<and> \<not> context_live w'
        \<and> files w' ''/tmp/redis-commands-a1B2c3''
             = Some (''SET k v'' @ [newline] @ ''PING 6379'' @ [newline])"
    by simp
  from mv finished normal failed show ?thesis by blast
qed



text \<open>
  Claim C10: when the number of batches asked for is zero or negative, the loop body is
  never entered: the loop returns the world it was given. A run that got as far as the
  loop (the temporary file was created, the commands file has a line, the connection was
  made) then ends with status 0 in a world that differs from the initial one only in
  that the temporary file does not exist and the connection is freed: \<open>rand()\<close> was
  never called, nothing was handed to the connection, no reply was read and the output
  file was not written.
\<close>

theorem no_batches_requested:
  assumes "numBatches a \<le> 0" and "mkstemp_name w = Some t"
    and "countFileLines ((files w)(t \<mapsto> [])) (commandsFile a) \<noteq> 0" and "connect_ok w"
  shows "main_run a w = Exited 0 (w\<lparr>files := (files w)(t := None), context_live := False\<rparr>)
       \<and> (\<forall>r w0. numBatches r = numBatches a \<longrightarrow> mainLoop r 1 w0 = Inr w0)"
proof -
  define w1 where "w1 = w\<lparr>files := (files w)(t \<mapsto> [])\<rparr>"
  have skip: "mainLoop r 1 w0 = Inr w0" if "numBatches r = numBatches a" for r w0
    using that assms(1) by (subst mainLoop.simps) simp
  have ct: "createTempFile w = Inr (t, w1)"
    unfolding w1_def using assms(2) by (rule createTempFile_Some)
  have len: "countFileLines (files w1) (commandsFile a) \<noteq> 0"
    using assms(3) by (simp add: w1_def)
  have conn: "connect_ok w1" using assms(4) by (simp add: w1_def)
  have "numBatches (run_of a t w1) = numBatches a" by (simp add: run_of_def)
  then have "mainLoop (run_of a t w1) 1 (w1\<lparr>context_live := True\<rparr>) = Inr (w1\<lparr>context_live := True\<rparr>)"
    by (rule skip)
  from main_run_loop_done [OF ct len conn this]
  have "main_run a w = Exited 0 (w\<lparr>files := (files w)(t := None), context_live := False\<rparr>)"
    by (simp add: w1_def)
  with skip show ?thesis by blast
qed

theorem no_batches_requested_witness:
  "numBatches (example_args\<lparr>numBatches := - 3\<rparr>) \<le> 0
   \<and> main_run (example_args\<lparr>numBatches := - 3\<rparr>) (example_world\<lparr>context_live := False\<rparr>)
        = Exited 0 (example_world\<lparr>context_live := False\<rparr>)
   \<and> mainLoop (example_run\<lparr>numBatches := - 3\<rparr>) 1 example_world = Inr example_world"
proof -
  let ?a = "example_args\<lparr>numBatches := - 3\<rparr>"
  let ?w = "example_world\<lparr>context_live := False\<rparr>"
  have n: "numBatches ?a \<le> 0" by simp
  have m: "mkstemp_name ?w = Some ''/tmp/redis-commands-a1B2c3''"
    by (simp add: example_world_def)
  have c: "countFileLines ((files ?w)(''/tmp/redis-commands-a1B2c3'' \<mapsto> [])) (commandsFile ?a) \<noteq> 0"
    by (simp add: example_world_def example_args_def countFileLines_def countLoop.simps
          getline_def open_in_def newline_def)
  have k: "connect_ok ?w" by (simp add: example_world_def)
  have same: "?w\<lparr>files := (files ?w)(''/tmp/redis-commands-a1B2c3'' := None), context_live := False\<rparr> = ?w"
    by (simp add: example_world_def)
  from no_batches_requested [OF n m c k] same
  have "main_run ?a ?w = Exited 0 ?w
        \<and> mainLoop (example_run\<lparr>numBatches := - 3\<rparr>) 1 example_world = Inr example_world"
    by simp
  with n show ?thesis by blast
qed

end
